theory Spec2Isabelle
  imports
    Complex_Main
    "HOL-Library.AList"
    "HOL-Library.Char_ord"
    "HOL-Library.List_Lexorder"
    "HOL-Library.Sublist"
begin

section \<open>JavaScript values, objects and the object store\<close>

text \<open>
  The analyser of \<^verbatim>\<open>src/duplicateLogic.ts\<close> walks syntax trees by reflection
  (\<^verbatim>\<open>Object.keys\<close>, \<^verbatim>\<open>typeof\<close>), so the trees are modelled as what they are
  at run time: JavaScript values, with objects and arrays living in a store and
  referred to by address. Identity, sharing and cycles are therefore expressible.
  Numbers are only ever copied by the analyser; they are integers here.
  Functions, symbols and big integers do not occur in parser output and are left out.
\<close>

type_synonym addr = nat

datatype jsval = VUndef | VNull | VBool bool | VNum int | VStr string | VRef addr

text \<open>
  An object is the list of its own enumerable properties in enumeration order; an
  array has its elements and, possibly, further named properties (an assignment
  \<^verbatim>\<open>a.raw = v\<close> to an array adds one).
\<close>

datatype obj = Obj "(string \<times> jsval) list" | Arr "jsval list" "(string \<times> jsval) list"

fun props :: "obj \<Rightarrow> (string \<times> jsval) list" where
  "props (Obj ps) = ps"
| "props (Arr es ps) = ps"

fun elems :: "obj \<Rightarrow> jsval list" where
  "elems (Obj ps) = []"
| "elems (Arr es ps) = es"

fun is_array :: "obj \<Rightarrow> bool" where
  "is_array (Obj ps) = False"
| "is_array (Arr es ps) = True"

record store =
  objs :: "addr \<Rightarrow> obj"
  next_addr :: addr

datatype error = TypeError | SyntaxError | ParseError | RenderError

text \<open>
  A call returns a value, throws, or exhausts its recursion budget; the last stands
  for a recursion that never comes back.
\<close>

datatype 'a outcome = Returns 'a | Throws error | OutOfFuel

text \<open>\<^verbatim>\<open>!v\<close> is false exactly for the truthy values; \<^verbatim>\<open>typeof v === "object"\<close>
  holds for \<^verbatim>\<open>null\<close> and for every object and array.\<close>

fun truthy :: "jsval \<Rightarrow> bool" where
  "truthy VUndef = False"
| "truthy VNull = False"
| "truthy (VBool b) = b"
| "truthy (VNum n) = (n \<noteq> 0)"
| "truthy (VStr t) = (t \<noteq> [])"
| "truthy (VRef a) = True"

fun typeof_object :: "jsval \<Rightarrow> bool" where
  "typeof_object VNull = True"
| "typeof_object (VRef a) = True"
| "typeof_object v = False"

text \<open>Reading a named property of an object: \<^verbatim>\<open>undefined\<close> when it is absent. None of
  the names the analyser reads is a member of \<^verbatim>\<open>Object.prototype\<close> or
  \<^verbatim>\<open>Array.prototype\<close>.\<close>

definition get_prop :: "obj \<Rightarrow> string \<Rightarrow> jsval" where
  "get_prop ob k = (case map_of (props ob) k of None \<Rightarrow> VUndef | Some v \<Rightarrow> v)"

text \<open>Assigning a named property: an existing key keeps its place, a new key goes last.\<close>

fun set_prop :: "obj \<Rightarrow> string \<Rightarrow> jsval \<Rightarrow> obj" where
  "set_prop (Obj ps) k v = Obj (AList.update k v ps)"
| "set_prop (Arr es ps) k v = Arr es (AList.update k v ps)"

text \<open>\<^verbatim>\<open>Object.keys\<close>: the indices of an array, then the named properties.\<close>

datatype pkey = Idx nat | Name string

definition own_keys :: "obj \<Rightarrow> pkey list" where
  "own_keys ob = map Idx [0..<length (elems ob)] @ map (Name \<circ> fst) (props ob)"

fun read_key :: "obj \<Rightarrow> pkey \<Rightarrow> jsval" where
  "read_key ob (Idx i) = (if i < length (elems ob) then elems ob ! i else VUndef)"
| "read_key ob (Name k) = get_prop ob k"

text \<open>\<^verbatim>\<open>xs.forEach(f)\<close> with a callback that updates a state and may throw or diverge.\<close>

fun forEachM :: "('a \<Rightarrow> 'st \<Rightarrow> 'st outcome) \<Rightarrow> 'a list \<Rightarrow> 'st \<Rightarrow> 'st outcome" where
  "forEachM f [] st = Returns st"
| "forEachM f (x # xs) st =
     (case f x st of
        Returns st' \<Rightarrow> forEachM f xs st'
      | Throws e \<Rightarrow> Throws e
      | OutOfFuel \<Rightarrow> OutOfFuel)"

section \<open>External collaborators\<close>

text \<open>
  The parser (\<^verbatim>\<open>@babel/parser\<close>), the renderer (\<^verbatim>\<open>@babel/generator\<close>), the digest
  (\<^verbatim>\<open>crypto\<close>, SHA-256) and the similarity metric (\<^verbatim>\<open>string-similarity\<close>) are
  libraries. Every function below takes them as parameters:
  \<^item> \<open>parse\<close> maps a source text (\<open>None\<close> for \<^verbatim>\<open>undefined\<close>, the value of
    \<^verbatim>\<open>fileMap[file]\<close> for a missing key) to a fresh object graph and its root, or throws;
  \<^item> \<open>gen\<close> renders a node of a store to text, or throws; it only reads the store;
  \<^item> \<open>hashCode\<close> maps a text to its digest, a string of 64 hexadecimal digits;
  \<^item> \<open>compareTwoStrings\<close> maps two texts to a score.
\<close>

type_synonym parser = "string option \<Rightarrow> error + (store \<times> jsval)"
type_synonym generator = "store \<Rightarrow> jsval \<Rightarrow> error + string"

section \<open>Function extraction\<close>

definition nodeToString :: "generator \<Rightarrow> store \<Rightarrow> jsval \<Rightarrow> error + string" where
  "nodeToString gen s node = gen s node"

definition is_function_type :: "jsval \<Rightarrow> bool" where
  "is_function_type t \<longleftrightarrow>
     t = VStr ''FunctionDeclaration'' \<or> t = VStr ''FunctionExpression'' \<or>
     t = VStr ''ArrowFunctionExpression''"

text \<open>
  The local function \<^verbatim>\<open>traverse\<close> of \<^verbatim>\<open>extractFunctions\<close>. The first argument bounds
  the depth of the recursion. A primitive value is left at once: a falsy one by
  \<^verbatim>\<open>if (!node) return\<close>, a truthy one because it has no \<^verbatim>\<open>type\<close> and no
  enumerable property of type object.
\<close>

primrec traverse ::
  "nat \<Rightarrow> generator \<Rightarrow> store \<Rightarrow> jsval \<Rightarrow> string list \<Rightarrow> string list outcome" where
  "traverse 0 gen s node functions =
     (case node of VRef a \<Rightarrow> OutOfFuel | _ \<Rightarrow> Returns functions)"
| "traverse (Suc d) gen s node functions =
     (case node of
        VRef a \<Rightarrow>
          (case (if is_function_type (get_prop (objs s a) ''type'')
                 then (case nodeToString gen s node of
                         Inl e \<Rightarrow> Throws e
                       | Inr code \<Rightarrow> Returns (functions @ [code]))
                 else Returns functions) of
             Returns fs \<Rightarrow>
               forEachM
                 (\<lambda>key acc.
                    if typeof_object (read_key (objs s a) key)
                    then traverse d gen s (read_key (objs s a) key) acc
                    else Returns acc)
                 (own_keys (objs s a)) fs
           | Throws e \<Rightarrow> Throws e
           | OutOfFuel \<Rightarrow> OutOfFuel)
      | _ \<Rightarrow> Returns functions)"

definition extractFunctions ::
  "nat \<Rightarrow> generator \<Rightarrow> store \<Rightarrow> jsval \<Rightarrow> string list outcome" where
  "extractFunctions fuel gen s ast = traverse fuel gen s ast []"


section \<open>Canonicalisation\<close>

subsection \<open>The deep clone \<^verbatim>\<open>JSON.parse(JSON.stringify(node))\<close>\<close>

datatype json =
  JNull | JBool bool | JNum int | JStr string | JArr "json list" | JObj "(string \<times> json) list"

fun mapOut :: "('a \<Rightarrow> 'b outcome) \<Rightarrow> 'a list \<Rightarrow> 'b list outcome" where
  "mapOut f [] = Returns []"
| "mapOut f (x # xs) =
     (case f x of
        Returns y \<Rightarrow>
          (case mapOut f xs of
             Returns ys \<Rightarrow> Returns (y # ys)
           | Throws e \<Rightarrow> Throws e
           | OutOfFuel \<Rightarrow> OutOfFuel)
      | Throws e \<Rightarrow> Throws e
      | OutOfFuel \<Rightarrow> OutOfFuel)"

fun json_of_prim :: "jsval \<Rightarrow> json option" where
  "json_of_prim VUndef = None"
| "json_of_prim VNull = Some JNull"
| "json_of_prim (VBool b) = Some (JBool b)"
| "json_of_prim (VNum n) = Some (JNum n)"
| "json_of_prim (VStr t) = Some (JStr t)"
| "json_of_prim (VRef a) = None"

text \<open>
  \<^verbatim>\<open>JSON.stringify\<close>: \<open>None\<close> is the result \<^verbatim>\<open>undefined\<close>. The list \<open>stk\<close> holds the
  objects being serialised; meeting one of them again is the circular structure
  that \<^verbatim>\<open>JSON.stringify\<close> rejects with a \<^verbatim>\<open>TypeError\<close>. An undefined array element
  becomes \<^verbatim>\<open>null\<close>, an undefined property is dropped, the named properties of an
  array are ignored.
\<close>

primrec stringify :: "nat \<Rightarrow> store \<Rightarrow> addr list \<Rightarrow> jsval \<Rightarrow> json option outcome" where
  "stringify 0 s stk v = (case v of VRef a \<Rightarrow> OutOfFuel | _ \<Rightarrow> Returns (json_of_prim v))"
| "stringify (Suc d) s stk v =
     (case v of
        VRef a \<Rightarrow>
          if a \<in> set stk then Throws TypeError
          else if is_array (objs s a) then
            (case mapOut (stringify d s (a # stk)) (elems (objs s a)) of
               Returns js \<Rightarrow>
                 Returns (Some (JArr (map (\<lambda>j. case j of None \<Rightarrow> JNull | Some x \<Rightarrow> x) js)))
             | Throws e \<Rightarrow> Throws e
             | OutOfFuel \<Rightarrow> OutOfFuel)
          else
            (case mapOut (\<lambda>k. case stringify d s (a # stk) (get_prop (objs s a) k) of
                                Returns j \<Rightarrow> Returns (k, j)
                              | Throws e \<Rightarrow> Throws e
                              | OutOfFuel \<Rightarrow> OutOfFuel)
                         (map fst (props (objs s a))) of
               Returns kjs \<Rightarrow>
                 Returns (Some (JObj (concat (map (\<lambda>(k, j). case j of None \<Rightarrow> [] | Some x \<Rightarrow> [(k, x)]) kjs))))
             | Throws e \<Rightarrow> Throws e
             | OutOfFuel \<Rightarrow> OutOfFuel)
      | _ \<Rightarrow> Returns (json_of_prim v))"

text \<open>\<^verbatim>\<open>JSON.parse\<close> builds new objects only: each one is put at the next free address.\<close>

definition new_obj :: "obj \<Rightarrow> store \<Rightarrow> jsval \<times> store" where
  "new_obj ob s =
     (VRef (next_addr s), s\<lparr>objs := (objs s)(next_addr s := ob), next_addr := Suc (next_addr s)\<rparr>)"

text \<open>Running a list of allocations one after the other, each on the store the
  previous one left.\<close>

fun push_result :: "'a \<Rightarrow> 'a list \<times> store \<Rightarrow> 'a list \<times> store" where
  "push_result x (xs, s) = (x # xs, s)"

fun run_all :: "(store \<Rightarrow> 'a \<times> store) list \<Rightarrow> store \<Rightarrow> 'a list \<times> store"
  and run_rest :: "'a \<times> store \<Rightarrow> (store \<Rightarrow> 'a \<times> store) list \<Rightarrow> 'a list \<times> store" where
  "run_all [] s = ([], s)"
| "run_all (m # ms) s = run_rest (m s) ms"
| "run_rest (x, s1) ms = push_result x (run_all ms s1)"

fun with_key_result :: "string \<Rightarrow> jsval \<times> store \<Rightarrow> (string \<times> jsval) \<times> store" where
  "with_key_result k (v, s) = ((k, v), s)"

definition with_key :: "string \<times> (store \<Rightarrow> jsval \<times> store) \<Rightarrow> store \<Rightarrow> (string \<times> jsval) \<times> store" where
  "with_key p s = with_key_result (fst p) (snd p s)"

fun new_array :: "jsval list \<times> store \<Rightarrow> jsval \<times> store" where
  "new_array (vs, s) = new_obj (Arr vs []) s"

fun new_object :: "(string \<times> jsval) list \<times> store \<Rightarrow> jsval \<times> store" where
  "new_object (kvs, s) = new_obj (Obj kvs) s"

primrec alloc :: "json \<Rightarrow> store \<Rightarrow> jsval \<times> store" where
  "alloc JNull s = (VNull, s)"
| "alloc (JBool b) s = (VBool b, s)"
| "alloc (JNum n) s = (VNum n, s)"
| "alloc (JStr t) s = (VStr t, s)"
| "alloc (JArr js) s = new_array (run_all (map alloc js) s)"
| "alloc (JObj ps) s = new_object (run_all (map with_key (map (map_prod id alloc) ps)) s)"

subsection \<open>Rewriting the clone in place\<close>

text \<open>A statement that updates the store finishes, throws (the store as it is at
  that moment is kept), or does not come back.\<close>

datatype effect = Done store | Raised error store | Stalled

definition andThen :: "effect \<Rightarrow> (store \<Rightarrow> effect) \<Rightarrow> effect" where
  "andThen r k = (case r of Done s \<Rightarrow> k s | Raised e s \<Rightarrow> Raised e s | Stalled \<Rightarrow> Stalled)"

fun forEachE :: "('a \<Rightarrow> store \<Rightarrow> effect) \<Rightarrow> 'a list \<Rightarrow> store \<Rightarrow> effect" where
  "forEachE f [] s = Done s"
| "forEachE f (x # xs) s = andThen (f x s) (forEachE f xs)"

text \<open>\<^verbatim>\<open>v.k\<close>: a \<^verbatim>\<open>TypeError\<close> on \<^verbatim>\<open>undefined\<close> and \<^verbatim>\<open>null\<close>, \<^verbatim>\<open>undefined\<close> on any other
  primitive value.\<close>

fun member :: "store \<Rightarrow> jsval \<Rightarrow> string \<Rightarrow> error + jsval" where
  "member s (VRef a) k = Inr (get_prop (objs s a) k)"
| "member s VUndef k = Inl TypeError"
| "member s VNull k = Inl TypeError"
| "member s v k = Inr VUndef"

text \<open>\<^verbatim>\<open>v.k = x\<close>: the module is strict code, where the assignment to a property of a
  primitive value throws like the one to a property of \<^verbatim>\<open>undefined\<close> or \<^verbatim>\<open>null\<close>.\<close>

fun assign :: "jsval \<Rightarrow> string \<Rightarrow> jsval \<Rightarrow> store \<Rightarrow> effect" where
  "assign (VRef a) k x s = Done (s\<lparr>objs := (objs s)(a := set_prop (objs s a) k x)\<rparr>)"
| "assign v k x s = Raised TypeError s"

text \<open>\<^verbatim>\<open>v.forEach(cb)\<close>: only an array has the method; the elements are read one by one
  from the current store.\<close>

definition array_forEach :: "(jsval \<Rightarrow> store \<Rightarrow> effect) \<Rightarrow> jsval \<Rightarrow> store \<Rightarrow> effect" where
  "array_forEach cb v s =
     (case v of
        VRef a \<Rightarrow>
          if is_array (objs s a)
          then forEachE (\<lambda>i s'. cb (read_key (objs s' a) (Idx i)) s') [0..<length (elems (objs s a))] s
          else Raised TypeError s
      | _ \<Rightarrow> Raised TypeError s)"

definition placeholder :: jsval where
  "placeholder = VStr ''placeholder''"

text \<open>The callback of \<^verbatim>\<open>n.quasis.forEach\<close>.\<close>

definition quasi_placeholder :: "jsval \<Rightarrow> store \<Rightarrow> effect" where
  "quasi_placeholder quasi s =
     (case member s quasi ''value'' of
        Inl e \<Rightarrow> Raised e s
      | Inr v \<Rightarrow>
          andThen (assign v ''raw'' placeholder s)
            (\<lambda>s1. case member s1 quasi ''value'' of
                     Inl e \<Rightarrow> Raised e s1
                   | Inr v1 \<Rightarrow> assign v1 ''cooked'' placeholder s1))"

text \<open>The \<^verbatim>\<open>try\<close> block of the local function \<^verbatim>\<open>traverse\<close> of \<^verbatim>\<open>normalizeAST\<close> for the
  object at address \<open>a\<close>; \<open>rec\<close> is \<^verbatim>\<open>traverse\<close> itself.\<close>

definition traverse_try :: "(jsval \<Rightarrow> store \<Rightarrow> effect) \<Rightarrow> addr \<Rightarrow> store \<Rightarrow> effect" where
  "traverse_try rec a s =
     andThen
       (let ty = get_prop (objs s a) ''type'' in
        if ty = VStr ''Identifier'' then assign (VRef a) ''name'' placeholder s
        else if ty = VStr ''Literal'' \<or> ty = VStr ''StringLiteral''
          then assign (VRef a) ''value'' placeholder s
        else if ty = VStr ''TemplateLiteral'' \<and> truthy (get_prop (objs s a) ''quasis'')
          then andThen (array_forEach quasi_placeholder (get_prop (objs s a) ''quasis'') s)
                 (\<lambda>s1. array_forEach rec (get_prop (objs s1 a) ''expressions'') s1)
        else if ty = VStr ''BinaryExpression''
          then andThen (rec (get_prop (objs s a) ''left'') s)
                 (\<lambda>s1. rec (get_prop (objs s1 a) ''right'') s1)
        else if ty = VStr ''CallExpression''
          then andThen (rec (get_prop (objs s a) ''callee'') s)
                 (\<lambda>s1. array_forEach rec (get_prop (objs s1 a) ''arguments'') s1)
        else if ty = VStr ''ReturnStatement''
          then rec (get_prop (objs s a) ''argument'') s
        else if ty = VStr ''IfStatement''
          then andThen (rec (get_prop (objs s a) ''test'') s)
                 (\<lambda>s1. andThen (rec (get_prop (objs s1 a) ''consequent'') s1)
                   (\<lambda>s2. if truthy (get_prop (objs s2 a) ''alternate'')
                          then rec (get_prop (objs s2 a) ''alternate'') s2
                          else Done s2))
        else Done s)
       (\<lambda>s1. forEachE
                (\<lambda>key s2. if typeof_object (read_key (objs s2 a) key)
                           then rec (read_key (objs s2 a) key) s2
                           else Done s2)
                (own_keys (objs s1 a)) s1)"

text \<open>The local function \<^verbatim>\<open>traverse\<close> of \<^verbatim>\<open>normalizeAST\<close>: the \<^verbatim>\<open>catch\<close> logs the error
  of the node and goes on with the store as the failed block left it.\<close>

primrec normalize_traverse :: "nat \<Rightarrow> jsval \<Rightarrow> store \<Rightarrow> effect" where
  "normalize_traverse 0 n s = (case n of VRef a \<Rightarrow> Stalled | _ \<Rightarrow> Done s)"
| "normalize_traverse (Suc d) n s =
     (case n of
        VRef a \<Rightarrow>
          (case traverse_try (normalize_traverse d) a s of
             Done s1 \<Rightarrow> Done s1
           | Raised e s1 \<Rightarrow> Done s1
           | Stalled \<Rightarrow> Stalled)
      | _ \<Rightarrow> Done s)"

text \<open>
  \<^verbatim>\<open>normalizeAST\<close>. The outer \<^verbatim>\<open>catch\<close> turns every exception of the clone and of the
  renderer into the result \<^verbatim>\<open>""\<close>; \<^verbatim>\<open>JSON.parse(undefined)\<close> throws a
  \<^verbatim>\<open>SyntaxError\<close>. The store after the call is returned with the text.
\<close>

definition normalizeAST ::
  "nat \<Rightarrow> generator \<Rightarrow> store \<Rightarrow> jsval \<Rightarrow> (string \<times> store) outcome" where
  "normalizeAST fuel gen s node =
     (case stringify fuel s [] node of
        OutOfFuel \<Rightarrow> OutOfFuel
      | Throws e \<Rightarrow> Returns ('''', s)
      | Returns None \<Rightarrow> Returns ('''', s)
      | Returns (Some j) \<Rightarrow>
          (case alloc j s of
             (clonedNode, s1) \<Rightarrow>
               (case normalize_traverse fuel clonedNode s1 of
                  Stalled \<Rightarrow> OutOfFuel
                | Raised e s2 \<Rightarrow> Returns ('''', s2)
                | Done s2 \<Rightarrow>
                    (case gen s2 clonedNode of
                       Inl e \<Rightarrow> Returns ('''', s2)
                     | Inr code \<Rightarrow> Returns (code, s2)))))"

section \<open>The three finders\<close>

text \<open>
  The caller's arguments: the array \<^verbatim>\<open>files\<close> and the object \<^verbatim>\<open>fileMap\<close>. Both are
  mutable and shared with the caller, so every finder takes them as a state and
  returns that state with its result. A key missing from \<^verbatim>\<open>fileMap\<close> reads as
  \<^verbatim>\<open>undefined\<close>.
\<close>

record world =
  files :: "string list"
  fileMap :: "string \<rightharpoonup> string"

text \<open>An object used as a table from digests to entries, in insertion order
  (a digest is never an array index nor a member of \<^verbatim>\<open>Object.prototype\<close>).\<close>

type_synonym 'v table = "(string \<times> 'v) list"

text \<open>\<^verbatim>\<open>String.prototype.trim\<close> on the white space of the ASCII range.\<close>

definition is_space :: "char \<Rightarrow> bool" where
  "is_space c \<longleftrightarrow> c \<in> {CHR '' '', CHR 0x09, CHR 0x0A, CHR 0x0B, CHR 0x0C, CHR 0x0D}"

definition trim :: "string \<Rightarrow> string" where
  "trim t = rev (dropWhile is_space (rev (dropWhile is_space t)))"

subsection \<open>Exact duplicates\<close>

record hash_entry =
  entry_code :: string
  entry_files :: "string list"

record exact_group =
  group_function :: string
  group_files :: "string list"

text \<open>The callback of \<^verbatim>\<open>extractFunctions(ast).forEach\<close> in \<^verbatim>\<open>findExactDuplicates\<close>.\<close>

definition record_function ::
  "(string \<Rightarrow> string) \<Rightarrow> string \<Rightarrow> string \<Rightarrow> hash_entry table \<Rightarrow> hash_entry table" where
  "record_function hashCode file func hashes =
     (let funcCode = trim func;
          hash = hashCode funcCode;
          hashes1 = (if map_of hashes hash = None
                     then hashes @ [(hash, \<lparr>entry_code = funcCode, entry_files = []\<rparr>)]
                     else hashes)
      in case map_of hashes1 hash of
           None \<Rightarrow> hashes1
         | Some entry \<Rightarrow>
             if file \<in> set (entry_files entry) then hashes1
             else AList.map_entry hash (\<lambda>e. e\<lparr>entry_files := entry_files e @ [file]\<rparr>) hashes1)"

text \<open>The callback of \<^verbatim>\<open>files.forEach\<close>: nothing catches what the parser or the
  renderer throws.\<close>

definition exact_file ::
  "parser \<Rightarrow> generator \<Rightarrow> (string \<Rightarrow> string) \<Rightarrow> nat \<Rightarrow> string \<Rightarrow>
   hash_entry table \<times> world \<Rightarrow> (hash_entry table \<times> world) outcome" where
  "exact_file parse gen hashCode fuel file st =
     (case st of (hashes, w) \<Rightarrow>
        (case parse (fileMap w file) of
           Inl e \<Rightarrow> Throws e
         | Inr (s, ast) \<Rightarrow>
             (case extractFunctions fuel gen s ast of
                Returns funcs \<Rightarrow> Returns (fold (record_function hashCode file) funcs hashes, w)
              | Throws e \<Rightarrow> Throws e
              | OutOfFuel \<Rightarrow> OutOfFuel)))"

definition findExactDuplicates ::
  "parser \<Rightarrow> generator \<Rightarrow> (string \<Rightarrow> string) \<Rightarrow> nat \<Rightarrow> world \<Rightarrow>
   (exact_group list \<times> world) outcome" where
  "findExactDuplicates parse gen hashCode fuel w =
     (case forEachM (exact_file parse gen hashCode fuel) (files w) ([], w) of
        Returns (hashes, w') \<Rightarrow>
          Returns
            (map (\<lambda>entry. \<lparr>group_function = entry_code entry, group_files = entry_files entry\<rparr>)
               (filter (\<lambda>entry. length (entry_files entry) > 1) (map snd hashes)),
             w')
      | Throws e \<Rightarrow> Throws e
      | OutOfFuel \<Rightarrow> OutOfFuel)"

subsection \<open>Near duplicates\<close>

record func_rec =
  fn_code :: string
  fn_file :: string

record match_entry =
  match_function :: string
  similarity :: real
  match_files :: "string list"

record near_result =
  source_function :: string
  source_file :: string
  matches :: "match_entry list"

definition near_file ::
  "parser \<Rightarrow> generator \<Rightarrow> nat \<Rightarrow> string \<Rightarrow>
   func_rec list \<times> world \<Rightarrow> (func_rec list \<times> world) outcome" where
  "near_file parse gen fuel file st =
     (case st of (functions, w) \<Rightarrow>
        (case parse (fileMap w file) of
           Inl e \<Rightarrow> Throws e
         | Inr (s, ast) \<Rightarrow>
             (case extractFunctions fuel gen s ast of
                Returns funcs \<Rightarrow>
                  Returns (functions @ map (\<lambda>func. \<lparr>fn_code = trim func, fn_file = file\<rparr>) funcs, w)
              | Throws e \<Rightarrow> Throws e
              | OutOfFuel \<Rightarrow> OutOfFuel)))"

text \<open>\<^verbatim>\<open>groupFunctionsBySize\<close>: a \<^verbatim>\<open>Map\<close> keeps its keys in insertion order.\<close>

definition groupFunctionsBySize :: "func_rec list \<Rightarrow> (nat \<times> func_rec list) list" where
  "groupFunctionsBySize functions =
     fold (\<lambda>func grouped.
             let size = length (fn_code func);
                 bucket = size div 100;
                 grouped1 = (if map_of grouped bucket = None then grouped @ [(bucket, [])]
                             else grouped)
             in AList.map_entry bucket (\<lambda>g. g @ [func]) grouped1)
          functions []"

text \<open>\<^verbatim>\<open>[a, b].sort().join(":") + ":" + code\<close>; the default sort compares strings
  by their code units.\<close>

definition pairKey :: "string \<Rightarrow> string \<Rightarrow> string \<Rightarrow> string" where
  "pairKey a b source =
     (if b < a then b @ '':'' @ a else a @ '':'' @ b) @ '':'' @ source"

text \<open>The body of the loop over \<open>j\<close>.\<close>

definition compare_pair ::
  "real \<Rightarrow> (string \<Rightarrow> string \<Rightarrow> real) \<Rightarrow> func_rec list \<Rightarrow> nat \<Rightarrow> nat \<Rightarrow>
   match_entry list \<times> string set \<Rightarrow> match_entry list \<times> string set" where
  "compare_pair threshold compareTwoStrings grp i j st =
     (case st of (ms, seenPairs) \<Rightarrow>
        if i \<noteq> j then
          (let sim = compareTwoStrings (fn_code (grp ! i)) (fn_code (grp ! j)) in
           if sim \<ge> threshold then
             (let pkey = pairKey (fn_file (grp ! i)) (fn_file (grp ! j)) (fn_code (grp ! i)) in
              if pkey \<notin> seenPairs
              then (ms @ [\<lparr>match_function = fn_code (grp ! j), similarity = sim,
                           match_files = [fn_file (grp ! j)]\<rparr>],
                    insert pkey seenPairs)
              else (ms, seenPairs))
           else (ms, seenPairs))
        else (ms, seenPairs))"

text \<open>The body of the loop over \<open>i\<close>.\<close>

definition compare_source ::
  "real \<Rightarrow> (string \<Rightarrow> string \<Rightarrow> real) \<Rightarrow> func_rec list \<Rightarrow> nat \<Rightarrow>
   near_result list \<times> string set \<Rightarrow> near_result list \<times> string set" where
  "compare_source threshold compareTwoStrings grp i st =
     (case st of (results, seenPairs) \<Rightarrow>
        (case fold (compare_pair threshold compareTwoStrings grp i) [0..<length grp]
                ([], seenPairs) of
           (ms, seenPairs1) \<Rightarrow>
             (if length ms > 0
              then results @ [\<lparr>source_function = fn_code (grp ! i),
                                source_file = fn_file (grp ! i), matches = ms\<rparr>]
              else results,
              seenPairs1)))"

text \<open>The callback of \<^verbatim>\<open>Array.from(grouped.values()).forEach\<close>.\<close>

definition compare_group ::
  "real \<Rightarrow> (string \<Rightarrow> string \<Rightarrow> real) \<Rightarrow> func_rec list \<Rightarrow>
   near_result list \<times> string set \<Rightarrow> near_result list \<times> string set" where
  "compare_group threshold compareTwoStrings grp st =
     fold (compare_source threshold compareTwoStrings grp) [0..<length grp] st"

definition compare_groups ::
  "real \<Rightarrow> (string \<Rightarrow> string \<Rightarrow> real) \<Rightarrow> func_rec list list \<Rightarrow> near_result list \<times> string set" where
  "compare_groups threshold compareTwoStrings groups =
     fold (compare_group threshold compareTwoStrings) groups ([], {})"

definition findNearDuplicates ::
  "parser \<Rightarrow> generator \<Rightarrow> (string \<Rightarrow> string \<Rightarrow> real) \<Rightarrow> nat \<Rightarrow> world \<Rightarrow> real \<Rightarrow>
   (near_result list \<times> world) outcome" where
  "findNearDuplicates parse gen compareTwoStrings fuel w threshold =
     (case forEachM (near_file parse gen fuel) (files w) ([], w) of
        Returns (functions, w') \<Rightarrow>
          Returns
            (fst (compare_groups threshold compareTwoStrings
                    (map snd (groupFunctionsBySize functions))),
             w')
      | Throws e \<Rightarrow> Throws e
      | OutOfFuel \<Rightarrow> OutOfFuel)"

subsection \<open>Structural duplicates\<close>

record struct_entry =
  normalizedFunction :: string
  originalFunctions :: "(string \<times> string) list"

text \<open>The \<^verbatim>\<open>try\<close> block of the inner callback up to the test \<^verbatim>\<open>!normalizedCode\<close>:
  \<open>None\<close> when the function is skipped, by the \<^verbatim>\<open>catch\<close> or by the test.\<close>

definition canonical_code :: "parser \<Rightarrow> generator \<Rightarrow> nat \<Rightarrow> string \<Rightarrow> string option outcome" where
  "canonical_code parse gen fuel originalFunction =
     (case parse (Some originalFunction) of
        Inl e \<Rightarrow> Returns None
      | Inr (s, ast) \<Rightarrow>
          (case normalizeAST fuel gen s ast of
             Returns (normalizedCode, s') \<Rightarrow>
               Returns (if normalizedCode = [] then None else Some normalizedCode)
           | Throws e \<Rightarrow> Returns None
           | OutOfFuel \<Rightarrow> OutOfFuel))"

definition add_original ::
  "(string \<Rightarrow> string) \<Rightarrow> string \<Rightarrow> string \<Rightarrow> string \<Rightarrow> struct_entry table \<Rightarrow> struct_entry table" where
  "add_original hashCode normalizedCode file originalFunction normalizedHashes =
     (let hash = hashCode normalizedCode;
          hashes1 = (if map_of normalizedHashes hash = None
                     then normalizedHashes @
                          [(hash, \<lparr>normalizedFunction = normalizedCode, originalFunctions = []\<rparr>)]
                     else normalizedHashes)
      in AList.map_entry hash
           (\<lambda>e. e\<lparr>originalFunctions := originalFunctions e @ [(file, originalFunction)]\<rparr>) hashes1)"

text \<open>The callback of \<^verbatim>\<open>functions.forEach\<close>.\<close>

definition struct_function ::
  "parser \<Rightarrow> generator \<Rightarrow> (string \<Rightarrow> string) \<Rightarrow> nat \<Rightarrow> string \<Rightarrow> string \<Rightarrow>
   struct_entry table \<Rightarrow> struct_entry table outcome" where
  "struct_function parse gen hashCode fuel file originalFunction normalizedHashes =
     (case canonical_code parse gen fuel originalFunction of
        Returns None \<Rightarrow> Returns normalizedHashes
      | Returns (Some normalizedCode) \<Rightarrow>
          Returns (add_original hashCode normalizedCode file originalFunction normalizedHashes)
      | Throws e \<Rightarrow> Throws e
      | OutOfFuel \<Rightarrow> OutOfFuel)"

text \<open>The callback of \<^verbatim>\<open>files.forEach\<close>: the parse of the file is outside the
  \<^verbatim>\<open>try\<close>.\<close>

definition struct_file ::
  "parser \<Rightarrow> generator \<Rightarrow> (string \<Rightarrow> string) \<Rightarrow> nat \<Rightarrow> string \<Rightarrow>
   struct_entry table \<times> world \<Rightarrow> (struct_entry table \<times> world) outcome" where
  "struct_file parse gen hashCode fuel file st =
     (case st of (normalizedHashes, w) \<Rightarrow>
        (case parse (fileMap w file) of
           Inl e \<Rightarrow> Throws e
         | Inr (s, ast) \<Rightarrow>
             (case extractFunctions fuel gen s ast of
                Returns functions \<Rightarrow>
                  (case forEachM (struct_function parse gen hashCode fuel file) functions
                          normalizedHashes of
                     Returns hashes1 \<Rightarrow> Returns (hashes1, w)
                   | Throws e \<Rightarrow> Throws e
                   | OutOfFuel \<Rightarrow> OutOfFuel)
              | Throws e \<Rightarrow> Throws e
              | OutOfFuel \<Rightarrow> OutOfFuel)))"

definition findStructuralDuplicates ::
  "parser \<Rightarrow> generator \<Rightarrow> (string \<Rightarrow> string) \<Rightarrow> nat \<Rightarrow> world \<Rightarrow>
   (struct_entry list \<times> world) outcome" where
  "findStructuralDuplicates parse gen hashCode fuel w =
     (case forEachM (struct_file parse gen hashCode fuel) (files w) ([], w) of
        Returns (normalizedHashes, w') \<Rightarrow>
          Returns (filter (\<lambda>entry. length (originalFunctions entry) > 1) (map snd normalizedHashes), w')
      | Throws e \<Rightarrow> Throws e
      | OutOfFuel \<Rightarrow> OutOfFuel)"

section \<open>Fixtures\<close>

text \<open>
  Concrete collaborators for evaluating the analyser on small inputs: syntax trees in
  the shape the Babel parser gives them, a parser that knows a few one-line
  programs and rejects every other text, a renderer for the node kinds of these
  programs, the identity as digest and a two-valued similarity score.
\<close>

definition store_of :: "obj list \<Rightarrow> store" where
  "store_of os = \<lparr>objs = (\<lambda>a. if a < length os then os ! a else Obj []), next_addr = length os\<rparr>"

definition function_nodes :: "nat \<Rightarrow> string \<Rightarrow> int \<Rightarrow> string \<Rightarrow> obj list" where
  "function_nodes b name n raw =
     [Obj [(''type'', VStr ''FunctionDeclaration''), (''id'', VRef (b + 1)),
           (''params'', VRef (b + 2)), (''body'', VRef (b + 3))],
      Obj [(''type'', VStr ''Identifier''), (''name'', VStr name)],
      Arr [] [],
      Obj [(''type'', VStr ''BlockStatement''), (''body'', VRef (b + 4))],
      Arr [VRef (b + 5)] [],
      Obj [(''type'', VStr ''ReturnStatement''), (''argument'', VRef (b + 6))],
      Obj [(''type'', VStr ''NumericLiteral''), (''value'', VNum n), (''extra'', VRef (b + 7))],
      Obj [(''rawValue'', VNum n), (''raw'', VStr raw)]]"

definition program1 :: "string \<Rightarrow> int \<Rightarrow> string \<Rightarrow> store \<times> jsval" where
  "program1 name n raw =
     (store_of ([Obj [(''type'', VStr ''Program''), (''body'', VRef 1)], Arr [VRef 2] []]
                @ function_nodes 2 name n raw), VRef 0)"

definition program2 :: "string \<Rightarrow> int \<Rightarrow> string \<Rightarrow> string \<Rightarrow> int \<Rightarrow> string \<Rightarrow> store \<times> jsval" where
  "program2 name n raw name' n' raw' =
     (store_of ([Obj [(''type'', VStr ''Program''), (''body'', VRef 1)], Arr [VRef 2, VRef 10] []]
                @ function_nodes 2 name n raw @ function_nodes 10 name' n' raw'), VRef 0)"

fun cat :: "(error + string) list \<Rightarrow> error + string" where
  "cat [] = Inr []"
| "cat (Inl e # rs) = Inl e"
| "cat (Inr t # rs) = (case cat rs of Inl e \<Rightarrow> Inl e | Inr u \<Rightarrow> Inr (t @ u))"

primrec render :: "nat \<Rightarrow> store \<Rightarrow> jsval \<Rightarrow> error + string" where
  "render 0 s v = Inl RenderError"
| "render (Suc d) s v =
     (case v of
        VRef a \<Rightarrow>
          (let ob = objs s a; ty = get_prop ob ''type'';
               sub = (\<lambda>k. render d s (get_prop ob k));
               subs = (\<lambda>k. case get_prop ob k of
                              VRef b \<Rightarrow> map (render d s) (elems (objs s b))
                            | _ \<Rightarrow> [])
           in if ty = VStr ''Program'' \<or> ty = VStr ''BlockStatement'' then cat (subs ''body'')
              else if ty = VStr ''FunctionDeclaration''
                then cat [Inr ''function '', sub ''id'', Inr ''(){'', sub ''body'', Inr ''}'']
              else if ty = VStr ''ReturnStatement''
                then cat [Inr ''return '', sub ''argument'', Inr '';'']
              else if ty = VStr ''Identifier''
                then (case get_prop ob ''name'' of VStr t \<Rightarrow> Inr t | _ \<Rightarrow> Inl RenderError)
              else if ty = VStr ''NumericLiteral''
                then (case get_prop ob ''extra'' of
                        VRef e \<Rightarrow> (case get_prop (objs s e) ''raw'' of
                                     VStr t \<Rightarrow> Inr t | _ \<Rightarrow> Inl RenderError)
                      | _ \<Rightarrow> Inl RenderError)
              else if ty = VStr ''CallExpression''
                then cat ([sub ''callee'']
                          @ (if get_prop ob ''typeArguments'' = VUndef then []
                             else [Inr ''<'', sub ''typeArguments'', Inr ''>''])
                          @ [Inr ''(''] @ subs ''arguments'' @ [Inr '')''])
              else Inl RenderError)
      | _ \<Rightarrow> Inl RenderError)"

definition stub_generate :: generator where
  "stub_generate = render 12"

definition src_f :: string where "src_f = ''function f(){return 1;}''"
definition src_g :: string where "src_g = ''function g(){return 2;}''"
definition src_h :: string where "src_h = ''function h(){return 3;}''"
definition src_k :: string where "src_k = ''function k(){return 4;}''"

definition stub_parse :: parser where
  "stub_parse src =
     (if src = Some src_f then Inr (program1 ''f'' 1 ''1'')
      else if src = Some src_g then Inr (program1 ''g'' 2 ''2'')
      else if src = Some src_h then Inr (program1 ''h'' 3 ''3'')
      else if src = Some src_k then Inr (program1 ''k'' 4 ''4'')
      else if src = Some (src_f @ src_f) then Inr (program2 ''f'' 1 ''1'' ''f'' 1 ''1'')
      else if src = Some (src_f @ src_k) then Inr (program2 ''f'' 1 ''1'' ''k'' 4 ''4'')
      else if src = Some (src_g @ src_h) then Inr (program2 ''g'' 2 ''2'' ''h'' 3 ''3'')
      else Inl ParseError)"

definition stub_hashCode :: "string \<Rightarrow> string" where
  "stub_hashCode t = t"

definition stub_compareTwoStrings :: "string \<Rightarrow> string \<Rightarrow> real" where
  "stub_compareTwoStrings a b = (if a = b then 1 else 9 / 10)"


text \<open>Three files: the first holds the same function twice, the second holds it once,
  the third holds another function.\<close>

definition w_repeat :: world where
  "w_repeat =
     \<lparr>files = [''a.js'', ''b.js'', ''c.js''],
      fileMap = [''a.js'' \<mapsto> src_f @ src_f, ''b.js'' \<mapsto> src_f, ''c.js'' \<mapsto> src_g]\<rparr>"

section \<open>Notions used in the statements and in the proofs\<close>

text \<open>No file occurs twice in the file list of an entry of the table.\<close>

definition files_once :: "hash_entry table \<Rightarrow> bool" where
  "files_once hashes \<longleftrightarrow> (\<forall>p \<in> set hashes. distinct (entry_files (snd p)))"

subsection \<open>Near duplicates\<close>

text \<open>
  The match entry that the loop body builds for the records at positions \<open>i\<close> and
  \<open>j\<close> of a bucket, the result entry of position \<open>i\<close> with the matches of the
  positions \<open>js\<close>, and the deduplication key of the ordered pair \<open>(i, j)\<close>.
\<close>

definition match_of :: "(string \<Rightarrow> string \<Rightarrow> real) \<Rightarrow> func_rec list \<Rightarrow> nat \<Rightarrow> nat \<Rightarrow> match_entry" where
  "match_of sim grp i j =
     \<lparr>match_function = fn_code (grp ! j),
      similarity = sim (fn_code (grp ! i)) (fn_code (grp ! j)),
      match_files = [fn_file (grp ! j)]\<rparr>"

definition source_entry ::
  "(string \<Rightarrow> string \<Rightarrow> real) \<Rightarrow> func_rec list \<Rightarrow> nat \<Rightarrow> nat list \<Rightarrow> near_result" where
  "source_entry sim grp i js =
     \<lparr>source_function = fn_code (grp ! i), source_file = fn_file (grp ! i),
      matches = map (match_of sim grp i) js\<rparr>"

definition key_of :: "func_rec list \<Rightarrow> nat \<Rightarrow> nat \<Rightarrow> string" where
  "key_of grp i j = pairKey (fn_file (grp ! i)) (fn_file (grp ! j)) (fn_code (grp ! i))"

text \<open>The deduplication keys of the matches of a result, read off the result itself:
  the file of the source, the file of the match and the text of the source.\<close>

definition result_keys :: "near_result \<Rightarrow> string list" where
  "result_keys r =
     concat (map (\<lambda>m. map (\<lambda>f. pairKey (source_file r) f (source_function r)) (match_files m))
               (matches r))"

definition emitted_keys :: "near_result list \<Rightarrow> string list" where
  "emitted_keys results = concat (map result_keys results)"

text \<open>The size bucket \<open>b\<close> of a list of records, in the order of the list.\<close>

definition bucket_of :: "func_rec \<Rightarrow> nat" where
  "bucket_of func = length (fn_code func) div 100"

definition bucket :: "nat \<Rightarrow> func_rec list \<Rightarrow> func_rec list" where
  "bucket b fns = filter (\<lambda>func. bucket_of func = b) fns"

definition group_step :: "func_rec \<Rightarrow> (nat \<times> func_rec list) list \<Rightarrow> (nat \<times> func_rec list) list" where
  "group_step func grouped =
     AList.map_entry (bucket_of func) (\<lambda>g. g @ [func])
       (if map_of grouped (bucket_of func) = None then grouped @ [(bucket_of func, [])] else grouped)"

definition grouped_inv :: "func_rec list \<Rightarrow> (nat \<times> func_rec list) list \<Rightarrow> bool" where
  "grouped_inv seen grouped \<longleftrightarrow>
     distinct (map fst grouped) \<and>
     (\<forall>b. map_of grouped b = (if b \<in> bucket_of ` set seen then Some (bucket b seen) else None))"

text \<open>The invariant of the comparison loops: the keys of the results are pairwise
  different and are exactly the set \<^verbatim>\<open>seenPairs\<close>, and every result is the entry of a
  position \<open>i\<close> of a bucket with matches from increasing positions other than \<open>i\<close>,
  each of a score that reaches the threshold.\<close>

definition near_inv ::
  "real \<Rightarrow> (string \<Rightarrow> string \<Rightarrow> real) \<Rightarrow> func_rec list list \<Rightarrow> near_result list \<times> string set \<Rightarrow> bool" where
  "near_inv t sim groups st \<longleftrightarrow>
     distinct (emitted_keys (fst st)) \<and> set (emitted_keys (fst st)) = snd st \<and>
     (\<forall>r \<in> set (fst st). \<exists>grp \<in> set groups. \<exists>i js.
        i < length grp \<and> subseq js [0..<length grp] \<and> i \<notin> set js \<and>
        (\<forall>j \<in> set js. t \<le> sim (fn_code (grp ! i)) (fn_code (grp ! j))) \<and>
        r = source_entry sim grp i js)"

text \<open>Two files of two functions each; every two of the four functions score 0.9.\<close>

definition w_near :: world where
  "w_near =
     \<lparr>files = [''a.js'', ''b.js''],
      fileMap = [''a.js'' \<mapsto> src_f @ src_k, ''b.js'' \<mapsto> src_g @ src_h]\<rparr>"

definition near_demo_functions :: "func_rec list" where
  "near_demo_functions =
     [\<lparr>fn_code = src_f, fn_file = ''a.js''\<rparr>, \<lparr>fn_code = src_k, fn_file = ''a.js''\<rparr>,
      \<lparr>fn_code = src_g, fn_file = ''b.js''\<rparr>, \<lparr>fn_code = src_h, fn_file = ''b.js''\<rparr>]"

definition near_demo_results :: "near_result list" where
  "near_demo_results =
     [\<lparr>source_function = src_f, source_file = ''a.js'',
        matches = [\<lparr>match_function = src_k, similarity = 9 / 10, match_files = [''a.js'']\<rparr>,
                   \<lparr>match_function = src_g, similarity = 9 / 10, match_files = [''b.js'']\<rparr>]\<rparr>,
      \<lparr>source_function = src_k, source_file = ''a.js'',
        matches = [\<lparr>match_function = src_f, similarity = 9 / 10, match_files = [''a.js'']\<rparr>,
                   \<lparr>match_function = src_g, similarity = 9 / 10, match_files = [''b.js'']\<rparr>]\<rparr>,
      \<lparr>source_function = src_g, source_file = ''b.js'',
        matches = [\<lparr>match_function = src_f, similarity = 9 / 10, match_files = [''a.js'']\<rparr>,
                   \<lparr>match_function = src_h, similarity = 9 / 10, match_files = [''b.js'']\<rparr>]\<rparr>,
      \<lparr>source_function = src_h, source_file = ''b.js'',
        matches = [\<lparr>match_function = src_f, similarity = 9 / 10, match_files = [''a.js'']\<rparr>,
                   \<lparr>match_function = src_g, similarity = 9 / 10, match_files = [''b.js'']\<rparr>]\<rparr>]"

subsection \<open>Structural duplicates\<close>

text \<open>
  The occurrences of a run of \<^verbatim>\<open>findStructuralDuplicates\<close>: for every extracted
  function that is not skipped, in the order of processing, its canonical text, its
  file and its original text. A file that holds a function twice yields two
  occurrences. The loops are those of the finder without the table.
\<close>

type_synonym occurrence = "string \<times> string \<times> string"

definition occ_function ::
  "parser \<Rightarrow> generator \<Rightarrow> nat \<Rightarrow> string \<Rightarrow> string \<Rightarrow> occurrence list \<Rightarrow> occurrence list outcome" where
  "occ_function parse gen fuel file originalFunction occs =
     (case canonical_code parse gen fuel originalFunction of
        Returns None \<Rightarrow> Returns occs
      | Returns (Some normalizedCode) \<Rightarrow> Returns (occs @ [(normalizedCode, file, originalFunction)])
      | Throws e \<Rightarrow> Throws e
      | OutOfFuel \<Rightarrow> OutOfFuel)"

definition occ_file ::
  "parser \<Rightarrow> generator \<Rightarrow> nat \<Rightarrow> string \<Rightarrow>
   occurrence list \<times> world \<Rightarrow> (occurrence list \<times> world) outcome" where
  "occ_file parse gen fuel file st =
     (case st of (occs, w) \<Rightarrow>
        (case parse (fileMap w file) of
           Inl e \<Rightarrow> Throws e
         | Inr (s, ast) \<Rightarrow>
             (case extractFunctions fuel gen s ast of
                Returns fns \<Rightarrow>
                  (case forEachM (occ_function parse gen fuel file) fns occs of
                     Returns occs1 \<Rightarrow> Returns (occs1, w)
                   | Throws e \<Rightarrow> Throws e
                   | OutOfFuel \<Rightarrow> OutOfFuel)
              | Throws e \<Rightarrow> Throws e
              | OutOfFuel \<Rightarrow> OutOfFuel)))"

definition structural_occurrences ::
  "parser \<Rightarrow> generator \<Rightarrow> nat \<Rightarrow> world \<Rightarrow> (occurrence list \<times> world) outcome" where
  "structural_occurrences parse gen fuel w = forEachM (occ_file parse gen fuel) (files w) ([], w)"

text \<open>The \<^verbatim>\<open>{file, function}\<close> pairs of the occurrences whose canonical text has the
  digest \<open>h\<close>.\<close>

definition originals :: "(string \<Rightarrow> string) \<Rightarrow> string \<Rightarrow> occurrence list \<Rightarrow> (string \<times> string) list" where
  "originals hashCode h occs = map snd (filter (\<lambda>oc. hashCode (fst oc) = h) occs)"

definition add_occurrence :: "(string \<Rightarrow> string) \<Rightarrow> occurrence \<Rightarrow> struct_entry table \<Rightarrow> struct_entry table" where
  "add_occurrence hashCode oc = add_original hashCode (fst oc) (fst (snd oc)) (snd (snd oc))"

definition table_of :: "(string \<Rightarrow> string) \<Rightarrow> occurrence list \<Rightarrow> struct_entry table" where
  "table_of hashCode occs = fold (add_occurrence hashCode) occs []"

definition struct_inv :: "(string \<Rightarrow> string) \<Rightarrow> occurrence list \<Rightarrow> struct_entry table \<Rightarrow> bool" where
  "struct_inv hashCode occs tab \<longleftrightarrow>
     distinct (map fst tab) \<and>
     (\<forall>h. map_option originalFunctions (map_of tab h) =
           (if h \<in> (\<lambda>oc. hashCode (fst oc)) ` set occs then Some (originals hashCode h occs) else None))"

definition struct_demo_occurrences :: "occurrence list" where
  "struct_demo_occurrences =
     [(''function placeholder(){return 1;}'', ''a.js'', src_f),
      (''function placeholder(){return 1;}'', ''a.js'', src_f),
      (''function placeholder(){return 1;}'', ''b.js'', src_f),
      (''function placeholder(){return 2;}'', ''c.js'', src_g)]"

definition struct_demo_group :: struct_entry where
  "struct_demo_group =
     \<lparr>normalizedFunction = ''function placeholder(){return 1;}'',
      originalFunctions = [(''a.js'', src_f), (''a.js'', src_f), (''b.js'', src_f)]\<rparr>"

text \<open>Two files with the same function and a third whose text does not parse; and the
  first two alone.\<close>

definition w_bad :: world where
  "w_bad =
     \<lparr>files = [''a.js'', ''b.js'', ''bad.js''],
      fileMap = [''a.js'' \<mapsto> src_f, ''b.js'' \<mapsto> src_f, ''bad.js'' \<mapsto> ''function ('']\<rparr>"

definition w_good :: world where
  "w_good =
     \<lparr>files = [''a.js'', ''b.js''],
      fileMap = [''a.js'' \<mapsto> src_f, ''b.js'' \<mapsto> src_f, ''bad.js'' \<mapsto> ''function ('']\<rparr>"

section \<open>Verified properties\<close>

subsection \<open>Termination of the extraction walk\<close>









subsection \<open>Loops\<close>

lemma forEachM_invariant:
  assumes "forEachM f xs st = Returns st'" and "P st"
    and "\<And>x a b. x \<in> set xs \<Longrightarrow> P a \<Longrightarrow> f x a = Returns b \<Longrightarrow> P b"
  shows "P st'"
  using assms
proof (induction xs arbitrary: st)
  case Nil
  then show ?case by simp
next
  case (Cons x xs)
  from Cons.prems(1) obtain st1 where s1: "f x st = Returns st1" and s2: "forEachM f xs st1 = Returns st'"
    by (cases "f x st") simp_all
  have "P st1" by (rule Cons.prems(3) [OF _ Cons.prems(2) s1]) simp
  show ?case
  proof (rule Cons.IH [OF s2 \<open>P st1\<close>])
    fix y a b
    assume "y \<in> set xs" and "P a" and "f y a = Returns b"
    then show "P b" using Cons.prems(3) [of y a b] by simp
  qed
qed

lemma fold_invariant:
  assumes "P st" and "\<And>x a. x \<in> set xs \<Longrightarrow> P a \<Longrightarrow> P (f x a)"
  shows "P (fold f xs st)"
  using assms by (induction xs arbitrary: st) simp_all

subsection \<open>Exact duplicates: one entry per file\<close>

lemma map_entry_cases:
  "p \<in> set (AList.map_entry k f xs) \<Longrightarrow>
   p \<in> set xs \<or> (\<exists>v. map_of xs k = Some v \<and> p = (k, f v))"
  by (induction xs) (auto split: if_splits)

lemma record_function_once:
  assumes "files_once hashes"
  shows "files_once (record_function hashCode file func hashes)"
proof -
  define hash where "hash = hashCode (trim func)"
  define hashes1 where "hashes1 = (if map_of hashes hash = None
      then hashes @ [(hash, \<lparr>entry_code = trim func, entry_files = []\<rparr>)] else hashes)"
  have one: "files_once hashes1"
    using assms by (auto simp: hashes1_def files_once_def)
  have rf: "record_function hashCode file func hashes =
      (case map_of hashes1 hash of None \<Rightarrow> hashes1
       | Some entry \<Rightarrow> if file \<in> set (entry_files entry) then hashes1
           else AList.map_entry hash (\<lambda>e. e\<lparr>entry_files := entry_files e @ [file]\<rparr>) hashes1)"
    by (simp only: record_function_def Let_def hash_def hashes1_def)
  show ?thesis
  proof (cases "map_of hashes1 hash")
    case None
    then show ?thesis using one rf by simp
  next
    case (Some entry)
    have d: "distinct (entry_files entry)"
      using one map_of_SomeD [OF Some] by (auto simp: files_once_def)
    show ?thesis
    proof (cases "file \<in> set (entry_files entry)")
      case True
      then show ?thesis using one rf Some by simp
    next
      case False
      then show ?thesis
        using one rf Some d
        by (auto simp: files_once_def dest!: map_entry_cases)
    qed
  qed
qed

lemma exact_file_once:
  assumes "exact_file parse gen hashCode fuel file (hashes, w) = Returns (hashes', w')"
    and "files_once hashes"
  shows "files_once hashes'"
proof -
  from assms(1) obtain funcs where "hashes' = fold (record_function hashCode file) funcs hashes"
    by (auto simp: exact_file_def split: sum.splits outcome.splits)
  then show ?thesis
    using assms(2) by (simp add: fold_invariant record_function_once)
qed

lemma exact_loop_once:
  assumes "forEachM (exact_file parse gen hashCode fuel) fs ([], w) = Returns (hashes, w')"
  shows "files_once hashes"
proof -
  have "files_once (fst (hashes, w'))"
  proof (rule forEachM_invariant [OF assms, where P = "\<lambda>st. files_once (fst st)"])
    show "files_once (fst ([], w))" by (simp add: files_once_def)
  next
    fix x a b
    assume "files_once (fst a)" and "exact_file parse gen hashCode fuel x a = Returns b"
    then show "files_once (fst b)"
      using exact_file_once [of parse gen hashCode fuel x "fst a" "snd a" "fst b" "snd b"] by simp
  qed
  then show ?thesis by simp
qed

text \<open>
  Claim C5. In \<^verbatim>\<open>findExactDuplicates\<close> a file is pushed to the file list of a digest
  only when \<^verbatim>\<open>includes\<close> does not find it there, so it is recorded at most once
  however many identical functions it holds; the final filter keeps the entries
  with more than one file. Every returned group therefore lists at least two
  distinct files and lists none twice.
\<close>

theorem exact_groups_distinct_files:
  assumes "findExactDuplicates parse gen hashCode fuel w = Returns (groups, w')"
    and "g \<in> set groups"
  shows "distinct (group_files g) \<and> 2 \<le> length (group_files g) \<and> 2 \<le> card (set (group_files g))"
proof -
  from assms(1) obtain hashes where
    loop: "forEachM (exact_file parse gen hashCode fuel) (files w) ([], w) = Returns (hashes, w')"
    and gs: "groups = map (\<lambda>entry. \<lparr>group_function = entry_code entry, group_files = entry_files entry\<rparr>)
               (filter (\<lambda>entry. length (entry_files entry) > 1) (map snd hashes))"
    by (auto simp: findExactDuplicates_def split: outcome.splits)
  from assms(2) gs obtain p where p: "p \<in> set hashes" "length (entry_files (snd p)) > 1"
    "group_files g = entry_files (snd p)"
    by auto
  have d: "distinct (group_files g)"
    using exact_loop_once [OF loop] p by (simp add: files_once_def)
  moreover have "2 \<le> length (group_files g)" using p by simp
  ultimately show ?thesis by (simp add: distinct_card)
qed

lemma forEachM_world:
  assumes "forEachM f xs (a, w) = Returns (a', w')"
    and "\<And>x b v c v'. f x (b, v) = Returns (c, v') \<Longrightarrow> v' = v"
  shows "w' = w"
proof -
  have "snd (a', w') = w"
  proof (rule forEachM_invariant [OF assms(1), where P = "\<lambda>st. snd st = w"])
    show "snd (a, w) = w" by simp
  next
    fix x st st1
    assume "snd st = w" and "f x st = Returns st1"
    then have "f x (fst st, w) = Returns (fst st1, snd st1)"
      by (cases st) simp
    then show "snd st1 = w" by (rule assms(2))
  qed
  then show ?thesis by simp
qed

lemma exact_file_world:
  "exact_file parse gen hashCode fuel file (hashes, w) = Returns (hashes', w') \<Longrightarrow> w' = w"
  by (auto simp: exact_file_def split: sum.splits outcome.splits)

lemma findExactDuplicates_world:
  assumes "findExactDuplicates parse gen hashCode fuel w = Returns (groups, w')"
  shows "w' = w"
proof -
  from assms obtain hashes where
    "forEachM (exact_file parse gen hashCode fuel) (files w) ([], w) = Returns (hashes, w')"
    by (auto simp: findExactDuplicates_def split: outcome.splits)
  then show ?thesis by (rule forEachM_world) (rule exact_file_world)
qed

lemma exact_demo_eval:
  "findExactDuplicates stub_parse stub_generate stub_hashCode 12 w_repeat =
     Returns ([\<lparr>group_function = src_f, group_files = [''a.js'', ''b.js'']\<rparr>], w_repeat)"
proof -
  have "(case findExactDuplicates stub_parse stub_generate stub_hashCode 12 w_repeat of
           Returns (gs, w') \<Rightarrow> gs = [\<lparr>group_function = src_f, group_files = [''a.js'', ''b.js'']\<rparr>]
         | _ \<Rightarrow> False)"
    by code_simp
  then obtain w' where r: "findExactDuplicates stub_parse stub_generate stub_hashCode 12 w_repeat =
      Returns ([\<lparr>group_function = src_f, group_files = [''a.js'', ''b.js'']\<rparr>], w')"
    by (auto split: outcome.splits)
  from findExactDuplicates_world [OF r] r show ?thesis by simp
qed

theorem exact_groups_distinct_files_witness:
  "findExactDuplicates stub_parse stub_generate stub_hashCode 12 w_repeat =
     Returns ([\<lparr>group_function = src_f, group_files = [''a.js'', ''b.js'']\<rparr>], w_repeat) \<and>
   distinct [''a.js'', ''b.js''] \<and> 2 \<le> length [''a.js'', ''b.js''] \<and>
   2 \<le> card (set [''a.js'', ''b.js''])"
  using exact_demo_eval
    exact_groups_distinct_files [OF exact_demo_eval,
      of "\<lparr>group_function = src_f, group_files = [''a.js'', ''b.js'']\<rparr>"]
  by simp

subsection \<open>Near duplicates: the comparison loops\<close>

lemma result_keys_source_entry: "result_keys (source_entry sim grp i js) = map (key_of grp i) js"
  by (induction js) (simp_all add: result_keys_def source_entry_def match_of_def key_of_def)

lemma emitted_keys_append [simp]:
  "emitted_keys (rs @ rs') = emitted_keys rs @ emitted_keys rs'"
  by (simp add: emitted_keys_def)

lemma emitted_keys_Nil [simp]: "emitted_keys [] = []"
  by (simp add: emitted_keys_def)

lemma emitted_keys_single [simp]: "emitted_keys [r] = result_keys r"
  by (simp add: emitted_keys_def)

lemma compare_pair_cases:
  "compare_pair t sim grp i j (ms, seen) =
     (if i \<noteq> j \<and> t \<le> sim (fn_code (grp ! i)) (fn_code (grp ! j)) \<and> key_of grp i j \<notin> seen
      then (ms @ [match_of sim grp i j], insert (key_of grp i j) seen)
      else (ms, seen))"
  by (simp add: compare_pair_def Let_def key_of_def match_of_def)

lemma compare_pairs_spec:
  "\<exists>js'. subseq js' js \<and> i \<notin> set js' \<and>
         (\<forall>j \<in> set js'. t \<le> sim (fn_code (grp ! i)) (fn_code (grp ! j)) \<and> key_of grp i j \<notin> seen) \<and>
         distinct (map (key_of grp i) js') \<and>
         fold (compare_pair t sim grp i) js (ms, seen) =
           (ms @ map (match_of sim grp i) js', seen \<union> key_of grp i ` set js')"
proof (induction js arbitrary: ms seen)
  case Nil
  show ?case by (rule exI [of _ "[]"]) simp
next
  case (Cons j js)
  show ?case
  proof (cases "i \<noteq> j \<and> t \<le> sim (fn_code (grp ! i)) (fn_code (grp ! j)) \<and> key_of grp i j \<notin> seen")
    case True
    from Cons.IH [where ms = "ms @ [match_of sim grp i j]" and seen = "insert (key_of grp i j) seen"]
    obtain js' where js': "subseq js' js" "i \<notin> set js'"
      "\<forall>j' \<in> set js'. t \<le> sim (fn_code (grp ! i)) (fn_code (grp ! j')) \<and>
          key_of grp i j' \<notin> insert (key_of grp i j) seen"
      "distinct (map (key_of grp i) js')"
      "fold (compare_pair t sim grp i) js (ms @ [match_of sim grp i j], insert (key_of grp i j) seen) =
         ((ms @ [match_of sim grp i j]) @ map (match_of sim grp i) js',
          insert (key_of grp i j) seen \<union> key_of grp i ` set js')"
      by blast
    show ?thesis
    proof (intro exI [of _ "j # js'"] conjI)
      show "subseq (j # js') (j # js)" using js'(1) by simp
      show "i \<notin> set (j # js')" using js'(2) True by simp
      show "\<forall>j' \<in> set (j # js'). t \<le> sim (fn_code (grp ! i)) (fn_code (grp ! j')) \<and> key_of grp i j' \<notin> seen"
        using js'(3) True by simp
      show "distinct (map (key_of grp i) (j # js'))" using js'(3,4) by auto
      show "fold (compare_pair t sim grp i) (j # js) (ms, seen) =
          (ms @ map (match_of sim grp i) (j # js'), seen \<union> key_of grp i ` set (j # js'))"
      proof -
        have "compare_pair t sim grp i j (ms, seen) =
            (ms @ [match_of sim grp i j], insert (key_of grp i j) seen)"
          using True by (auto simp: compare_pair_cases)
        then show ?thesis using js'(5) by simp
      qed
    qed
  next
    case False
    from Cons.IH [where ms = ms and seen = seen]
    obtain js' where js': "subseq js' js" "i \<notin> set js'"
      "\<forall>j' \<in> set js'. t \<le> sim (fn_code (grp ! i)) (fn_code (grp ! j')) \<and> key_of grp i j' \<notin> seen"
      "distinct (map (key_of grp i) js')"
      "fold (compare_pair t sim grp i) js (ms, seen) =
         (ms @ map (match_of sim grp i) js', seen \<union> key_of grp i ` set js')"
      by blast
    show ?thesis
    proof (intro exI [of _ js'] conjI)
      show "subseq js' (j # js)" using js'(1) by (rule list_emb_Cons)  
      show "fold (compare_pair t sim grp i) (j # js) (ms, seen) =
          (ms @ map (match_of sim grp i) js', seen \<union> key_of grp i ` set js')"
      proof -
        have "compare_pair t sim grp i j (ms, seen) = (ms, seen)"
          using False by (auto simp: compare_pair_cases)
        then show ?thesis using js'(5) by simp
      qed
    qed (use js' in auto)
  qed
qed

lemma compare_pairs_seen_mono:
  "seen \<subseteq> snd (fold (compare_pair t sim grp i) js (ms, seen))"
  using compare_pairs_spec [where js = js and i = i and t = t and sim = sim and grp = grp and seen = seen and ms = ms] by auto

lemma compare_pairs_complete:
  "j \<in> set js \<Longrightarrow> i \<noteq> j \<Longrightarrow> t \<le> sim (fn_code (grp ! i)) (fn_code (grp ! j)) \<Longrightarrow>
   key_of grp i j \<in> snd (fold (compare_pair t sim grp i) js (ms, seen))"
proof (induction js arbitrary: ms seen)
  case Nil
  then show ?case by simp
next
  case (Cons a js)
  obtain ms1 seen1 where st: "compare_pair t sim grp i a (ms, seen) = (ms1, seen1)"
    by (cases "compare_pair t sim grp i a (ms, seen)")
  show ?case
  proof (cases "j = a")
    case True
    then have "key_of grp i j \<in> seen1"
      using st Cons.prems by (auto simp: compare_pair_cases split: if_splits)
    then show ?thesis
      using compare_pairs_seen_mono [where seen = seen1 and ms = ms1 and js = js and t = t and sim = sim and grp = grp and i = i] st by auto
  next
    case False
    then have "j \<in> set js" using Cons.prems by simp
    from Cons.IH [OF this Cons.prems(2,3), where ms = ms1 and seen = seen1] show ?thesis using st by simp
  qed
qed

lemma fold_grows:
  assumes "\<And>y a. S a \<subseteq> S (f y a)"
  shows "S a \<subseteq> S (fold f xs a)"
proof (induction xs arbitrary: a)
  case Nil
  show ?case by simp
next
  case (Cons x xs)
  have "S a \<subseteq> S (f x a)" by (rule assms)
  also have "\<dots> \<subseteq> S (fold f xs (f x a))" by (rule Cons.IH)
  finally show ?case by simp
qed

lemma fold_reaches:
  assumes "x \<in> set xs" and "\<And>a. k \<in> S (f x a)" and "\<And>y a. S a \<subseteq> S (f y a)"
  shows "k \<in> S (fold f xs a)"
  using assms(1)
proof (induction xs arbitrary: a)
  case Nil
  then show ?case by simp
next
  case (Cons y xs)
  show ?case
  proof (cases "x = y")
    case True
    have "k \<in> S (f y a)" using assms(2) True by simp
    moreover have "S (f y a) \<subseteq> S (fold f xs (f y a))" by (rule fold_grows) (rule assms(3))
    ultimately show ?thesis by auto
  next
    case False
    then have "x \<in> set xs" using Cons.prems by simp
    then show ?thesis using Cons.IH by simp
  qed
qed

lemma compare_source_spec:
  "\<exists>js. subseq js [0..<length grp] \<and> i \<notin> set js \<and>
        (\<forall>j \<in> set js. t \<le> sim (fn_code (grp ! i)) (fn_code (grp ! j)) \<and> key_of grp i j \<notin> seen) \<and>
        distinct (map (key_of grp i) js) \<and>
        compare_source t sim grp i (results, seen) =
          (if js = [] then results else results @ [source_entry sim grp i js],
           seen \<union> key_of grp i ` set js)"
proof -
  from compare_pairs_spec [where js = "[0..<length grp]" and ms = "[]" and seen = seen
      and i = i and t = t and sim = sim and grp = grp]
  obtain js where js: "subseq js [0..<length grp]" "i \<notin> set js"
    "\<forall>j \<in> set js. t \<le> sim (fn_code (grp ! i)) (fn_code (grp ! j)) \<and> key_of grp i j \<notin> seen"
    "distinct (map (key_of grp i) js)"
    "fold (compare_pair t sim grp i) [0..<length grp] ([], seen) =
       ([] @ map (match_of sim grp i) js, seen \<union> key_of grp i ` set js)"
    by blast
  have "compare_source t sim grp i (results, seen) =
          (if js = [] then results else results @ [source_entry sim grp i js],
           seen \<union> key_of grp i ` set js)"
    using js(5) by (simp add: compare_source_def source_entry_def)
  with js(1-4) show ?thesis by blast
qed

lemma compare_source_inv:
  assumes "near_inv t sim groups st" and "grp \<in> set groups" and "i < length grp"
  shows "near_inv t sim groups (compare_source t sim grp i st)"
proof -
  obtain results seen where st: "st = (results, seen)" by (cases st)
  from compare_source_spec [of grp i t sim seen results]
  obtain js where js: "subseq js [0..<length grp]" "i \<notin> set js"
    "\<forall>j \<in> set js. t \<le> sim (fn_code (grp ! i)) (fn_code (grp ! j)) \<and> key_of grp i j \<notin> seen"
    "distinct (map (key_of grp i) js)"
    "compare_source t sim grp i (results, seen) =
          (if js = [] then results else results @ [source_entry sim grp i js],
           seen \<union> key_of grp i ` set js)"
    by blast
  define results' where "results' = (if js = [] then results else results @ [source_entry sim grp i js])"
  have keys: "emitted_keys results' = emitted_keys results @ map (key_of grp i) js"
    by (simp add: results'_def result_keys_source_entry)
  have old: "distinct (emitted_keys results)" "set (emitted_keys results) = seen"
    using assms(1) st by (simp_all add: near_inv_def)
  have d: "distinct (emitted_keys results')"
    using keys old js(3,4) by auto
  have s: "set (emitted_keys results') = seen \<union> key_of grp i ` set js"
    using keys old by simp
  have shape: "\<forall>r \<in> set results'. \<exists>grp \<in> set groups. \<exists>i js.
        i < length grp \<and> subseq js [0..<length grp] \<and> i \<notin> set js \<and>
        (\<forall>j \<in> set js. t \<le> sim (fn_code (grp ! i)) (fn_code (grp ! j))) \<and>
        r = source_entry sim grp i js"
  proof
    fix r assume "r \<in> set results'"
    then consider "r \<in> set results" | "r = source_entry sim grp i js"
      by (auto simp: results'_def split: if_splits)
    then show "\<exists>grp \<in> set groups. \<exists>i js.
        i < length grp \<and> subseq js [0..<length grp] \<and> i \<notin> set js \<and>
        (\<forall>j \<in> set js. t \<le> sim (fn_code (grp ! i)) (fn_code (grp ! j))) \<and>
        r = source_entry sim grp i js"
    proof cases
      case 1
      then show ?thesis using assms(1) st by (simp add: near_inv_def)
    next
      case 2
      then show ?thesis using assms(2,3) js(1,2,3) by blast
    qed
  qed
  show ?thesis
    using d s shape js(5) st by (simp add: near_inv_def results'_def)
qed

lemma compare_source_grows: "snd st \<subseteq> snd (compare_source t sim grp i st)"
proof -
  obtain results seen where st: "st = (results, seen)" by (cases st)
  from compare_source_spec [of grp i t sim seen results] show ?thesis
    using st by auto
qed

lemma compare_source_complete:
  assumes "j < length grp" and "i \<noteq> j" and "t \<le> sim (fn_code (grp ! i)) (fn_code (grp ! j))"
  shows "key_of grp i j \<in> snd (compare_source t sim grp i st)"
proof -
  obtain results seen where st: "st = (results, seen)" by (cases st)
  have "j \<in> set [0..<length grp]" using assms(1) by simp
  then have "key_of grp i j \<in> snd (fold (compare_pair t sim grp i) [0..<length grp] ([], seen))"
    using assms(2,3)
      compare_pairs_complete [where j = j and js = "[0..<length grp]" and i = i and t = t
        and sim = sim and grp = grp and ms = "[]" and seen = seen]
    by blast
  then show ?thesis
    by (auto simp: st compare_source_def split: prod.splits)
qed

lemma compare_group_inv:
  assumes "near_inv t sim groups st" and "grp \<in> set groups"
  shows "near_inv t sim groups (compare_group t sim grp st)"
  unfolding compare_group_def
proof (rule fold_invariant [where P = "near_inv t sim groups"])
  show "near_inv t sim groups st" by (rule assms(1))
next
  fix x a assume "x \<in> set [0..<length grp]" and "near_inv t sim groups a"
  then show "near_inv t sim groups (compare_source t sim grp x a)"
    using assms(2) by (simp add: compare_source_inv)
qed

lemma compare_group_grows: "snd st \<subseteq> snd (compare_group t sim grp st)"
  unfolding compare_group_def
  by (rule fold_grows [where S = snd]) (rule compare_source_grows)

lemma compare_group_complete:
  assumes "i < length grp" and "j < length grp" and "i \<noteq> j"
    and "t \<le> sim (fn_code (grp ! i)) (fn_code (grp ! j))"
  shows "key_of grp i j \<in> snd (compare_group t sim grp st)"
  unfolding compare_group_def
proof (rule fold_reaches [where x = i and S = snd])
  show "i \<in> set [0..<length grp]" using assms(1) by simp
  show "\<And>a. key_of grp i j \<in> snd (compare_source t sim grp i a)"
    using assms(2,3,4) by (simp add: compare_source_complete)
  show "\<And>y a. snd a \<subseteq> snd (compare_source t sim grp y a)"
    by (rule compare_source_grows)
qed

lemma compare_groups_inv: "near_inv t sim groups (compare_groups t sim groups)"
proof -
  have "near_inv t sim groups (fold (compare_group t sim) gs ([], {}))" if "set gs \<subseteq> set groups" for gs
  proof (rule fold_invariant [where P = "near_inv t sim groups"])
    show "near_inv t sim groups ([], {})" by (simp add: near_inv_def)
  next
    fix x a assume "x \<in> set gs" and "near_inv t sim groups a"
    then show "near_inv t sim groups (compare_group t sim x a)"
      using that by (auto intro: compare_group_inv)
  qed
  then show ?thesis by (simp add: compare_groups_def)
qed

lemma compare_groups_complete:
  assumes "grp \<in> set groups" and "i < length grp" and "j < length grp" and "i \<noteq> j"
    and "t \<le> sim (fn_code (grp ! i)) (fn_code (grp ! j))"
  shows "key_of grp i j \<in> snd (compare_groups t sim groups)"
  unfolding compare_groups_def
proof (rule fold_reaches [where x = grp and S = snd])
  show "grp \<in> set groups" by (rule assms(1))
  show "\<And>a. key_of grp i j \<in> snd (compare_group t sim grp a)"
    using assms(2,3,4,5) by (simp add: compare_group_complete)
  show "\<And>y a. snd a \<subseteq> snd (compare_group t sim y a)"
    by (rule compare_group_grows)
qed

subsection \<open>Near duplicates: the size buckets\<close>

lemma groupFunctionsBySize_fold: "groupFunctionsBySize fns = fold group_step fns []"
proof -
  have "group_step = (\<lambda>func grouped.
             let size = length (fn_code func);
                 bucket = size div 100;
                 grouped1 = (if map_of grouped bucket = None then grouped @ [(bucket, [])]
                             else grouped)
             in AList.map_entry bucket (\<lambda>g. g @ [func]) grouped1)"
    by (intro ext) (simp add: group_step_def bucket_of_def Let_def)
  then show ?thesis by (simp add: groupFunctionsBySize_def)
qed

lemma map_fst_map_entry: "map fst (AList.map_entry k f xs) = map fst xs"
  by (induction xs) auto

lemma group_step_inv:
  assumes "grouped_inv seen grouped"
  shows "grouped_inv (seen @ [func]) (group_step func grouped)"
proof -
  define b0 where "b0 = bucket_of func"
  define g1 where "g1 = (if map_of grouped b0 = None then grouped @ [(b0, [])] else grouped)"
  have d: "distinct (map fst grouped)"
    and m: "\<And>b. map_of grouped b = (if b \<in> bucket_of ` set seen then Some (bucket b seen) else None)"
    using assms by (simp_all add: grouped_inv_def)
  have d1: "distinct (map fst g1)"
    using d by (auto simp: g1_def map_of_eq_None_iff)
  have m1: "map_of g1 b = (if b = b0 \<or> b \<in> bucket_of ` set seen then Some (bucket b seen) else None)" for b
  proof (cases "map_of grouped b0 = None")
    case True
    then have "b0 \<notin> bucket_of ` set seen" using m [of b0] by (simp split: if_splits)
    then have "bucket b0 seen = []" by (auto simp: bucket_def filter_empty_conv)
    then show ?thesis using True m [of b] by (auto simp: g1_def map_add_def split: option.splits)
  next
    case False
    then have "b0 \<in> bucket_of ` set seen" using m [of b0] by (simp split: if_splits)
    then show ?thesis using False m [of b] by (auto simp: g1_def)
  qed
  have step: "group_step func grouped = AList.map_entry b0 (\<lambda>g. g @ [func]) g1"
    by (simp add: group_step_def b0_def g1_def)
  have "distinct (map fst (group_step func grouped))"
    using d1 by (simp add: step map_fst_map_entry)
  moreover have "map_of (group_step func grouped) b =
      (if b \<in> bucket_of ` set (seen @ [func]) then Some (bucket b (seen @ [func])) else None)" for b
    using m1 [of b] m1 [of b0]
    by (auto simp: step map_of_map_entry bucket_def b0_def)
  ultimately show ?thesis by (simp add: grouped_inv_def)
qed

lemma fold_group_step_inv:
  "grouped_inv seen grouped \<Longrightarrow> grouped_inv (seen @ fns) (fold group_step fns grouped)"
proof (induction fns arbitrary: seen grouped)
  case Nil
  then show ?case by simp
next
  case (Cons func fns)
  from Cons.IH [OF group_step_inv [OF Cons.prems, of func]] show ?case by simp
qed

lemma groupFunctionsBySize_buckets:
  "grp \<in> set (map snd (groupFunctionsBySize fns)) \<longleftrightarrow>
   (\<exists>b. grp = bucket b fns \<and> grp \<noteq> [])"
proof -
  have inv: "grouped_inv fns (groupFunctionsBySize fns)"
    using fold_group_step_inv [of "[]" "[]" fns]
    by (simp add: groupFunctionsBySize_fold grouped_inv_def)
  then have d: "distinct (map fst (groupFunctionsBySize fns))"
    and m: "\<And>b. map_of (groupFunctionsBySize fns) b =
        (if b \<in> bucket_of ` set fns then Some (bucket b fns) else None)"
    by (simp_all add: grouped_inv_def)
  have ne: "b \<in> bucket_of ` set fns \<longleftrightarrow> bucket b fns \<noteq> []" for b
    by (auto simp: bucket_def filter_empty_conv)
  show ?thesis
  proof
    assume "grp \<in> set (map snd (groupFunctionsBySize fns))"
    then obtain b where "(b, grp) \<in> set (groupFunctionsBySize fns)" by auto
    then have "map_of (groupFunctionsBySize fns) b = Some grp"
      using d by simp
    then show "\<exists>b. grp = bucket b fns \<and> grp \<noteq> []"
      using m [of b] ne [of b] by (auto split: if_splits)
  next
    assume "\<exists>b. grp = bucket b fns \<and> grp \<noteq> []"
    then obtain b where b: "grp = bucket b fns" "grp \<noteq> []" by blast
    then have "map_of (groupFunctionsBySize fns) b = Some grp"
      using m [of b] ne [of b] by simp
    then have "(b, grp) \<in> set (groupFunctionsBySize fns)" by (rule map_of_SomeD)
    then show "grp \<in> set (map snd (groupFunctionsBySize fns))" by force
  qed
qed

subsection \<open>Near duplicates: the finder\<close>

lemma near_file_world: "near_file parse gen fuel file (fs, w) = Returns (fs', w') \<Longrightarrow> w' = w"
  by (auto simp: near_file_def split: sum.splits outcome.splits)

lemma findNearDuplicates_unfold:
  assumes "findNearDuplicates parse gen sim fuel w t = Returns (results, w')"
  obtains fns where
    "forEachM (near_file parse gen fuel) (files w) ([], w) = Returns (fns, w')"
    "results = fst (compare_groups t sim (map snd (groupFunctionsBySize fns)))"
  using assms by (auto simp: findNearDuplicates_def split: outcome.splits)


lemma forEachM_functional:
  "forEachM f xs st = Returns a \<Longrightarrow> forEachM f xs st = Returns b \<Longrightarrow> a = b"
  by simp

lemma findNearDuplicates_world:
  assumes "findNearDuplicates parse gen sim fuel w t = Returns (results, w')"
  shows "w' = w"
proof -
  from assms obtain fns where
    "forEachM (near_file parse gen fuel) (files w) ([], w) = Returns (fns, w')"
    by (rule findNearDuplicates_unfold)
  then show ?thesis by (rule forEachM_world) (rule near_file_world)
qed

lemma findNearDuplicates_results:
  assumes "findNearDuplicates parse gen sim fuel w t = Returns (results, w')"
    and "forEachM (near_file parse gen fuel) (files w) ([], w) = Returns (fns, w'')"
  shows "results = fst (compare_groups t sim (map snd (groupFunctionsBySize fns)))"
  using assms by (auto simp: findNearDuplicates_def split: outcome.splits)

text \<open>
  Claim C8. A match is pushed only when its key is not in \<^verbatim>\<open>seenPairs\<close>, and the key
  is added with it; \<^verbatim>\<open>seenPairs\<close> lives through the whole run. So the keys of all
  the matches of all the results are pairwise different: no key is emitted twice,
  in whatever orientation or bucket.
\<close>

theorem near_keys_emitted_once:
  assumes "findNearDuplicates parse gen compareTwoStrings fuel w threshold = Returns (results, w')"
  shows "distinct (emitted_keys results)"
proof -
  from assms obtain fns where
    r: "results = fst (compare_groups threshold compareTwoStrings (map snd (groupFunctionsBySize fns)))"
    by (rule findNearDuplicates_unfold)
  show ?thesis
    using compare_groups_inv [of threshold compareTwoStrings "map snd (groupFunctionsBySize fns)"]
    by (simp add: near_inv_def r)
qed

text \<open>
  Claim C9. Let \<open>fns\<close> be the records extracted from the files. Every result is the
  entry of one position \<open>i\<close> of a size bucket of \<open>fns\<close>, and its matches are the
  match entries of positions \<open>js\<close> of the same bucket, where \<open>js\<close> is strictly
  increasing and does not contain \<open>i\<close>: no record is matched with itself, and none
  twice with the same source.
\<close>

theorem near_no_self_match:
  assumes "findNearDuplicates parse gen compareTwoStrings fuel w threshold = Returns (results, w')"
    and "forEachM (near_file parse gen fuel) (files w) ([], w) = Returns (fns, w'')"
    and "r \<in> set results"
  shows "\<exists>b i js. i < length (bucket b fns) \<and>
           subseq js [0..<length (bucket b fns)] \<and> i \<notin> set js \<and>
           r = source_entry compareTwoStrings (bucket b fns) i js"
proof -
  have r: "results = fst (compare_groups threshold compareTwoStrings (map snd (groupFunctionsBySize fns)))"
    using assms(1,2) by (rule findNearDuplicates_results)
  from compare_groups_inv [of threshold compareTwoStrings "map snd (groupFunctionsBySize fns)"]
    assms(3) r
  obtain grp i js where g: "grp \<in> set (map snd (groupFunctionsBySize fns))"
    "i < length grp" "subseq js [0..<length grp]" "i \<notin> set js"
    "r = source_entry compareTwoStrings grp i js"
    unfolding near_inv_def by fastforce
  from g(1) obtain b where "grp = bucket b fns"
    unfolding groupFunctionsBySize_buckets by blast
  with g show ?thesis by blast
qed

text \<open>
  Claim C7, as the code has it. Every reported match has a score of at least the
  threshold, a score equal to the threshold included; nothing below it is
  reported. Conversely, for every two different positions of a bucket whose score
  reaches the threshold, the key of the pair is among the keys of the reported
  matches: the pair is reported unless a match with the same key was reported
  before it.
\<close>

theorem near_threshold:
  assumes "findNearDuplicates parse gen compareTwoStrings fuel w threshold = Returns (results, w')"
    and "forEachM (near_file parse gen fuel) (files w) ([], w) = Returns (fns, w'')"
  shows "(\<forall>r \<in> set results. \<forall>m \<in> set (matches r). threshold \<le> similarity m) \<and>
         (\<forall>b i j. i < length (bucket b fns) \<and> j < length (bucket b fns) \<and> i \<noteq> j \<and>
             threshold \<le> compareTwoStrings (fn_code (bucket b fns ! i)) (fn_code (bucket b fns ! j)) \<longrightarrow>
             key_of (bucket b fns) i j \<in> set (emitted_keys results))"
proof -
  have r: "results = fst (compare_groups threshold compareTwoStrings (map snd (groupFunctionsBySize fns)))"
    using assms(1,2) by (rule findNearDuplicates_results)
  let ?groups = "map snd (groupFunctionsBySize fns)"
  have inv: "near_inv threshold compareTwoStrings ?groups (compare_groups threshold compareTwoStrings ?groups)"
    by (rule compare_groups_inv)
  have sound: "\<forall>r \<in> set results. \<forall>m \<in> set (matches r). threshold \<le> similarity m"
  proof (intro ballI)
    fix r m assume "r \<in> set results" and m: "m \<in> set (matches r)"
    with inv r obtain grp i js where
      "\<forall>j \<in> set js. threshold \<le> compareTwoStrings (fn_code (grp ! i)) (fn_code (grp ! j))"
      "r = source_entry compareTwoStrings grp i js"
      unfolding near_inv_def by fastforce
    with m show "threshold \<le> similarity m"
      by (auto simp: source_entry_def match_of_def)
  qed
  have complete: "key_of (bucket b fns) i j \<in> set (emitted_keys results)"
    if "i < length (bucket b fns)" "j < length (bucket b fns)" "i \<noteq> j"
      "threshold \<le> compareTwoStrings (fn_code (bucket b fns ! i)) (fn_code (bucket b fns ! j))"
    for b i j
  proof -
    have "bucket b fns \<noteq> []" using that(1) by auto
    then have "bucket b fns \<in> set ?groups"
      unfolding groupFunctionsBySize_buckets by blast
    then have "key_of (bucket b fns) i j \<in> snd (compare_groups threshold compareTwoStrings ?groups)"
      using that by (simp add: compare_groups_complete)
    then show ?thesis using inv r by (simp add: near_inv_def)
  qed
  show ?thesis using sound complete by blast
qed

subsection \<open>Near duplicates: a run\<close>

lemma near_demo_extract:
  "forEachM (near_file stub_parse stub_generate 12) (files w_near) ([], w_near) =
     Returns (near_demo_functions, w_near)"
proof -
  have "(case forEachM (near_file stub_parse stub_generate 12) (files w_near) ([], w_near) of
           Returns (fns, w') \<Rightarrow> fns = near_demo_functions | _ \<Rightarrow> False)"
    by code_simp
  then obtain w' where r: "forEachM (near_file stub_parse stub_generate 12) (files w_near) ([], w_near) =
      Returns (near_demo_functions, w')"
    by (auto split: outcome.splits)
  have "w' = w_near" using r by (rule forEachM_world) (rule near_file_world)
  with r show ?thesis by simp
qed

lemma near_demo_eval:
  "findNearDuplicates stub_parse stub_generate stub_compareTwoStrings 12 w_near (4 / 5) =
     Returns (near_demo_results, w_near)"
proof -
  have "(case findNearDuplicates stub_parse stub_generate stub_compareTwoStrings 12 w_near (4 / 5) of
           Returns (rs, w') \<Rightarrow> rs = near_demo_results | _ \<Rightarrow> False)"
    by code_simp
  then obtain w' where r: "findNearDuplicates stub_parse stub_generate stub_compareTwoStrings 12 w_near (4 / 5) =
      Returns (near_demo_results, w')"
    by (auto split: outcome.splits)
  from findNearDuplicates_world [OF r] r show ?thesis by simp
qed

theorem near_keys_emitted_once_witness:
  "findNearDuplicates stub_parse stub_generate stub_compareTwoStrings 12 w_near (4 / 5) =
     Returns (near_demo_results, w_near) \<and>
   distinct (emitted_keys near_demo_results)"
  using near_demo_eval near_keys_emitted_once [OF near_demo_eval] by simp

theorem near_no_self_match_witness:
  "findNearDuplicates stub_parse stub_generate stub_compareTwoStrings 12 w_near (4 / 5) =
     Returns (near_demo_results, w_near) \<and>
   forEachM (near_file stub_parse stub_generate 12) (files w_near) ([], w_near) =
     Returns (near_demo_functions, w_near) \<and>
   hd near_demo_results \<in> set near_demo_results \<and>
   (\<exists>b i js. i < length (bucket b near_demo_functions) \<and>
      subseq js [0..<length (bucket b near_demo_functions)] \<and> i \<notin> set js \<and>
      hd near_demo_results = source_entry stub_compareTwoStrings (bucket b near_demo_functions) i js)"
proof -
  have m: "hd near_demo_results \<in> set near_demo_results"
    by (simp add: near_demo_results_def)
  show ?thesis
    using near_demo_eval near_demo_extract m
      near_no_self_match [OF near_demo_eval near_demo_extract m]
    by simp
qed

theorem near_threshold_witness:
  "findNearDuplicates stub_parse stub_generate stub_compareTwoStrings 12 w_near (4 / 5) =
     Returns (near_demo_results, w_near) \<and>
   forEachM (near_file stub_parse stub_generate 12) (files w_near) ([], w_near) =
     Returns (near_demo_functions, w_near) \<and>
   4 / 5 \<le> similarity (hd (matches (hd near_demo_results))) \<and>
   4 / 5 \<le> stub_compareTwoStrings (fn_code (bucket 0 near_demo_functions ! 1))
                                    (fn_code (bucket 0 near_demo_functions ! 3)) \<and>
   key_of (bucket 0 near_demo_functions) 1 3 \<in> set (emitted_keys near_demo_results)"
proof -
  note th = near_threshold [OF near_demo_eval near_demo_extract]
  have a: "4 / 5 \<le> similarity (hd (matches (hd near_demo_results)))"
    using th by (simp add: near_demo_results_def)
  have c: "1 < length (bucket 0 near_demo_functions) \<and> 3 < length (bucket 0 near_demo_functions) \<and>
      (1::nat) \<noteq> 3 \<and>
      4 / 5 \<le> stub_compareTwoStrings (fn_code (bucket 0 near_demo_functions ! 1))
                                       (fn_code (bucket 0 near_demo_functions ! 3))"
    by code_simp
  have b: "key_of (bucket 0 near_demo_functions) 1 3 \<in> set (emitted_keys near_demo_results)"
    using th c by blast
  show ?thesis using near_demo_eval near_demo_extract a b c by simp
qed

text \<open>
  The claim as the specification words it fails: the fns \<open>k\<close> of \<^verbatim>\<open>a.js\<close> and
  \<open>h\<close> of \<^verbatim>\<open>b.js\<close> are in one bucket and score 0.9, above the threshold 0.8, and
  neither is reported as a match of the other, in either direction. With \<open>k\<close> as
  source, the key of \<open>(k, h)\<close> is the key of \<open>(k, g)\<close>, which came first; with \<open>h\<close>
  as source, the key of \<open>(h, k)\<close> is the key of \<open>(h, f)\<close>.
\<close>

theorem near_threshold_counterexample:
  "findNearDuplicates stub_parse stub_generate stub_compareTwoStrings 12 w_near (4 / 5) =
     Returns (near_demo_results, w_near) \<and>
   4 / 5 \<le> stub_compareTwoStrings src_k src_h \<and>
   \<not> (\<exists>r \<in> set near_demo_results. \<exists>m \<in> set (matches r).
        {source_function r, match_function m} = {src_k, src_h})"
proof -
  have "4 / 5 \<le> stub_compareTwoStrings src_k src_h \<and>
   \<not> (\<exists>r \<in> set near_demo_results. \<exists>m \<in> set (matches r).
        {source_function r, match_function m} = {src_k, src_h})"
    by code_simp
  then show ?thesis using near_demo_eval by simp
qed

subsection \<open>Structural duplicates: the table of occurrences\<close>

lemma forEachM_rel:
  assumes "R a b"
    and "\<And>x a b. x \<in> set xs \<Longrightarrow> R a b \<Longrightarrow> rel_outcome R (f x a) (g x b)"
  shows "rel_outcome R (forEachM f xs a) (forEachM g xs b)"
  using assms
proof (induction xs arbitrary: a b)
  case Nil
  then show ?case by simp
next
  case (Cons x xs)
  have step: "rel_outcome R (f x a) (g x b)" using Cons.prems by simp
  show ?case
  proof (cases "f x a")
    case (Returns a1)
    with step obtain b1 where b1: "g x b = Returns b1" "R a1 b1"
      by (cases "g x b") simp_all
    have "rel_outcome R (forEachM f xs a1) (forEachM g xs b1)"
      using Cons.IH [OF b1(2)] Cons.prems(2) by simp
    then show ?thesis using Returns b1(1) by simp
  next
    case (Throws e)
    with step show ?thesis by (cases "g x b") simp_all
  next
    case OutOfFuel
    with step show ?thesis by (cases "g x b") simp_all
  qed
qed

lemma table_of_snoc: "table_of hashCode (occs @ [oc]) = add_occurrence hashCode oc (table_of hashCode occs)"
  by (simp add: table_of_def)

lemma struct_function_rel:
  assumes "tab = table_of hashCode occs"
  shows "rel_outcome (\<lambda>t os. t = table_of hashCode os)
           (struct_function parse gen hashCode fuel file fn tab)
           (occ_function parse gen fuel file fn occs)"
  using assms
  by (auto simp: struct_function_def occ_function_def table_of_snoc add_occurrence_def
           split: outcome.splits option.splits)

lemma struct_file_rel:
  assumes "tab = table_of hashCode occs"
  shows "rel_outcome (\<lambda>p q. fst p = table_of hashCode (fst q) \<and> snd p = snd q)
           (struct_file parse gen hashCode fuel file (tab, w))
           (occ_file parse gen fuel file (occs, w))"
proof (cases "parse (fileMap w file)")
  case (Inl e)
  then show ?thesis by (simp add: struct_file_def occ_file_def)
next
  case (Inr p)
  obtain s ast where p: "p = (s, ast)" by (cases p)
  show ?thesis
  proof (cases "extractFunctions fuel gen s ast")
    case (Returns fns)
    have "rel_outcome (\<lambda>t os. t = table_of hashCode os)
            (forEachM (struct_function parse gen hashCode fuel file) fns tab)
            (forEachM (occ_function parse gen fuel file) fns occs)"
    proof (rule forEachM_rel [where R = "\<lambda>t os. t = table_of hashCode os"])
      show "tab = table_of hashCode occs" by (rule assms)
    next
      fix x a b assume "a = table_of hashCode b"
      then show "rel_outcome (\<lambda>t os. t = table_of hashCode os)
          (struct_function parse gen hashCode fuel file x a) (occ_function parse gen fuel file x b)"
        by (rule struct_function_rel)
    qed
    then show ?thesis
      using Inr p Returns
      by (cases "forEachM (struct_function parse gen hashCode fuel file) fns tab";
          cases "forEachM (occ_function parse gen fuel file) fns occs")
         (simp_all add: struct_file_def occ_file_def)
  next
    case (Throws e)
    then show ?thesis using Inr p by (simp add: struct_file_def occ_file_def)
  next
    case OutOfFuel
    then show ?thesis using Inr p by (simp add: struct_file_def occ_file_def)
  qed
qed

lemma struct_loop_rel:
  "rel_outcome (\<lambda>p q. fst p = table_of hashCode (fst q) \<and> snd p = snd q)
     (forEachM (struct_file parse gen hashCode fuel) fs ([], w))
     (forEachM (occ_file parse gen fuel) fs ([], w))"
proof (rule forEachM_rel [where R = "\<lambda>p q. fst p = table_of hashCode (fst q) \<and> snd p = snd q"])
  show "fst ([], w) = table_of hashCode (fst ([], w)) \<and> snd ([], w) = snd ([], w)"
    by (simp add: table_of_def)
next
  fix x and a :: "struct_entry table \<times> world" and b :: "occurrence list \<times> world"
  assume "fst a = table_of hashCode (fst b) \<and> snd a = snd b"
  then show "rel_outcome (\<lambda>p q. fst p = table_of hashCode (fst q) \<and> snd p = snd q)
      (struct_file parse gen hashCode fuel x a) (occ_file parse gen fuel x b)"
    using struct_file_rel [of "fst a" hashCode "fst b" parse gen fuel x "snd a"]
    by (cases a; cases b) simp
qed

lemma add_occurrence_inv:
  assumes "struct_inv hashCode occs tab"
  shows "struct_inv hashCode (occs @ [oc]) (add_occurrence hashCode oc tab)"
proof -
  obtain nc fl orig where oc: "oc = (nc, fl, orig)" by (cases oc)
  define h0 where "h0 = hashCode nc"
  define H where "H = (\<lambda>oc. hashCode (fst oc)) ` set occs"
  define e0 where "e0 = \<lparr>normalizedFunction = nc, originalFunctions = []\<rparr>"
  define t1 where "t1 = (if map_of tab h0 = None then tab @ [(h0, e0)] else tab)"
  have d: "distinct (map fst tab)"
    and m: "\<And>h. map_option originalFunctions (map_of tab h) =
        (if h \<in> H then Some (originals hashCode h occs) else None)"
    using assms by (simp_all add: struct_inv_def H_def)
  have empty: "originals hashCode h occs = []" if "h \<notin> H" for h
    using that by (auto simp: originals_def filter_empty_conv H_def)
  have d1: "distinct (map fst t1)"
    using d by (auto simp: t1_def map_of_eq_None_iff)
  have m1: "map_option originalFunctions (map_of t1 h) =
      (if h = h0 \<or> h \<in> H then Some (originals hashCode h occs) else None)" for h
  proof (cases "map_of tab h0 = None")
    case True
    then have notin: "h0 \<notin> H" using m [of h0] by (simp split: if_splits)
    have look: "map_of t1 h = (if h = h0 then Some e0 else map_of tab h)"
      using True by (simp add: t1_def map_add_def split: option.splits)
    show ?thesis
    proof (cases "h = h0")
      case True
      then show ?thesis using look empty [OF notin] by (simp add: e0_def)
    next
      case False
      then show ?thesis using look m [of h] by simp
    qed
  next
    case False
    then have "h0 \<in> H" using m [of h0] by (auto split: if_splits)
    moreover have "t1 = tab" using False by (simp add: t1_def)
    ultimately show ?thesis using m [of h] by auto
  qed
  have step: "add_occurrence hashCode oc tab =
      AList.map_entry h0 (\<lambda>e. e\<lparr>originalFunctions := originalFunctions e @ [(fl, orig)]\<rparr>) t1"
    by (simp add: add_occurrence_def add_original_def oc h0_def t1_def e0_def Let_def)
  have H': "(\<lambda>oc. hashCode (fst oc)) ` set (occs @ [oc]) = insert h0 H"
    by (auto simp: H_def oc h0_def)
  have orig': "originals hashCode h (occs @ [oc]) =
      (if h = h0 then originals hashCode h occs @ [(fl, orig)] else originals hashCode h occs)" for h
    by (auto simp: originals_def oc h0_def)
  have "distinct (map fst (add_occurrence hashCode oc tab))"
    using d1 by (simp add: step map_fst_map_entry)
  moreover have "map_option originalFunctions (map_of (add_occurrence hashCode oc tab) h) =
      (if h \<in> (\<lambda>oc. hashCode (fst oc)) ` set (occs @ [oc])
       then Some (originals hashCode h (occs @ [oc])) else None)" for h
  proof (cases "h = h0")
    case True
    from m1 [of h0] obtain e where e: "map_of t1 h0 = Some e"
      "originalFunctions e = originals hashCode h0 occs"
      by (cases "map_of t1 h0") auto
    show ?thesis
      unfolding H' orig' using True e by (simp add: step map_of_map_entry)
  next
    case False
    show ?thesis
      unfolding H' orig' using False m1 [of h] by (simp add: step map_of_map_entry)
  qed
  ultimately show ?thesis by (simp add: struct_inv_def)
qed

lemma table_of_inv: "struct_inv hashCode occs (table_of hashCode occs)"
proof (induction occs rule: rev_induct)
  case Nil
  show ?case by (simp add: struct_inv_def table_of_def originals_def)
next
  case (snoc oc occs)
  then show ?case by (simp add: table_of_snoc add_occurrence_inv)
qed

lemma findStructuralDuplicates_table:
  assumes "findStructuralDuplicates parse gen hashCode fuel w = Returns (groups, w')"
    and "structural_occurrences parse gen fuel w = Returns (occs, w'')"
  shows "groups = filter (\<lambda>entry. length (originalFunctions entry) > 1)
                    (map snd (table_of hashCode occs))"
proof -
  from assms(1) obtain tab where
    loop: "forEachM (struct_file parse gen hashCode fuel) (files w) ([], w) = Returns (tab, w')"
    and gs: "groups = filter (\<lambda>entry. length (originalFunctions entry) > 1) (map snd tab)"
    by (auto simp: findStructuralDuplicates_def split: outcome.splits)
  have "tab = table_of hashCode occs"
    using struct_loop_rel [of hashCode parse gen fuel "files w" w] loop assms(2)
    by (simp add: structural_occurrences_def)
  with gs show ?thesis by simp
qed

text \<open>
  Claim C6. Let \<open>occs\<close> be the occurrences of the run. Every returned group holds
  exactly the \<^verbatim>\<open>{file, function}\<close> pairs of all occurrences of one digest, in the
  order of processing, and these are at least two; and every digest with at least
  two occurrences has such a group. Occurrences are counted one by one, also when
  two of them come from the same file.
\<close>

theorem structural_groups_complete:
  assumes "findStructuralDuplicates parse gen hashCode fuel w = Returns (groups, w')"
    and "structural_occurrences parse gen fuel w = Returns (occs, w'')"
  shows "(\<forall>g \<in> set groups. \<exists>h. originalFunctions g = originals hashCode h occs \<and>
                               2 \<le> length (originals hashCode h occs)) \<and>
         (\<forall>h. 2 \<le> length (originals hashCode h occs) \<longrightarrow>
              (\<exists>g \<in> set groups. originalFunctions g = originals hashCode h occs))"
proof -
  let ?tab = "table_of hashCode occs"
  have gs: "groups = filter (\<lambda>entry. length (originalFunctions entry) > 1) (map snd ?tab)"
    using assms by (rule findStructuralDuplicates_table)
  have d: "distinct (map fst ?tab)"
    and m: "\<And>h. map_option originalFunctions (map_of ?tab h) =
        (if h \<in> (\<lambda>oc. hashCode (fst oc)) ` set occs then Some (originals hashCode h occs) else None)"
    using table_of_inv [of hashCode occs] by (simp_all add: struct_inv_def)
  have one: "\<exists>h. originalFunctions g = originals hashCode h occs \<and> 2 \<le> length (originals hashCode h occs)"
    if "g \<in> set groups" for g
  proof -
    from that gs obtain h where h: "(h, g) \<in> set ?tab" and l: "length (originalFunctions g) > 1"
      by auto
    from h d have "map_of ?tab h = Some g" by simp
    then have "originalFunctions g = originals hashCode h occs"
      using m [of h] by (auto split: if_splits)
    with l show ?thesis by auto
  qed
  have two: "\<exists>g \<in> set groups. originalFunctions g = originals hashCode h occs"
    if "2 \<le> length (originals hashCode h occs)" for h
  proof -
    from that have "originals hashCode h occs \<noteq> []" by auto
    then have "h \<in> (\<lambda>oc. hashCode (fst oc)) ` set occs"
      by (auto simp: originals_def filter_empty_conv)
    then obtain g where g: "map_of ?tab h = Some g" "originalFunctions g = originals hashCode h occs"
      using m [of h] by (auto split: if_splits)
    from g(1) have "(h, g) \<in> set ?tab" by (rule map_of_SomeD)
    then have "g \<in> set groups" using gs g(2) that by force
    with g(2) show ?thesis by blast
  qed
  show ?thesis using one two by blast
qed

lemma struct_file_world:
  "struct_file parse gen hashCode fuel file (tab, w) = Returns (tab', w') \<Longrightarrow> w' = w"
  by (auto simp: struct_file_def split: sum.splits outcome.splits)

lemma findStructuralDuplicates_world:
  assumes "findStructuralDuplicates parse gen hashCode fuel w = Returns (groups, w')"
  shows "w' = w"
proof -
  from assms obtain tab where
    "forEachM (struct_file parse gen hashCode fuel) (files w) ([], w) = Returns (tab, w')"
    by (auto simp: findStructuralDuplicates_def split: outcome.splits)
  then show ?thesis by (rule forEachM_world) (rule struct_file_world)
qed

lemma occ_file_world:
  "occ_file parse gen fuel file (occs, w) = Returns (occs', w') \<Longrightarrow> w' = w"
  by (auto simp: occ_file_def split: sum.splits outcome.splits)

lemma struct_demo_eval:
  "findStructuralDuplicates stub_parse stub_generate stub_hashCode 12 w_repeat =
     Returns ([struct_demo_group], w_repeat)"
proof -
  have "(case findStructuralDuplicates stub_parse stub_generate stub_hashCode 12 w_repeat of
           Returns (gs, w') \<Rightarrow> gs = [struct_demo_group] | _ \<Rightarrow> False)"
    by code_simp
  then obtain w' where r: "findStructuralDuplicates stub_parse stub_generate stub_hashCode 12 w_repeat =
      Returns ([struct_demo_group], w')"
    by (auto split: outcome.splits)
  from findStructuralDuplicates_world [OF r] r show ?thesis by simp
qed

lemma struct_demo_occs:
  "structural_occurrences stub_parse stub_generate 12 w_repeat =
     Returns (struct_demo_occurrences, w_repeat)"
proof -
  have "(case structural_occurrences stub_parse stub_generate 12 w_repeat of
           Returns (os, w') \<Rightarrow> os = struct_demo_occurrences | _ \<Rightarrow> False)"
    by code_simp
  then obtain w' where r: "structural_occurrences stub_parse stub_generate 12 w_repeat =
      Returns (struct_demo_occurrences, w')"
    by (auto split: outcome.splits)
  have "w' = w_repeat"
    using r unfolding structural_occurrences_def by (rule forEachM_world) (rule occ_file_world)
  with r show ?thesis by simp
qed

theorem structural_groups_complete_witness:
  "findStructuralDuplicates stub_parse stub_generate stub_hashCode 12 w_repeat =
     Returns ([struct_demo_group], w_repeat) \<and>
   structural_occurrences stub_parse stub_generate 12 w_repeat =
     Returns (struct_demo_occurrences, w_repeat) \<and>
   (\<exists>h. originalFunctions struct_demo_group = originals stub_hashCode h struct_demo_occurrences \<and>
         2 \<le> length (originals stub_hashCode h struct_demo_occurrences)) \<and>
   2 \<le> length (originals stub_hashCode ''function placeholder(){return 1;}'' struct_demo_occurrences) \<and>
   (\<exists>g \<in> set [struct_demo_group].
      originalFunctions g =
        originals stub_hashCode ''function placeholder(){return 1;}'' struct_demo_occurrences)"
proof -
  note th = structural_groups_complete [OF struct_demo_eval struct_demo_occs]
  have l: "2 \<le> length (originals stub_hashCode ''function placeholder(){return 1;}'' struct_demo_occurrences)"
    by code_simp
  have a: "\<exists>h. originalFunctions struct_demo_group = originals stub_hashCode h struct_demo_occurrences \<and>
         2 \<le> length (originals stub_hashCode h struct_demo_occurrences)"
    using th by simp
  have b: "\<exists>g \<in> set [struct_demo_group].
      originalFunctions g =
        originals stub_hashCode ''function placeholder(){return 1;}'' struct_demo_occurrences"
    using th l by blast
  show ?thesis using struct_demo_eval struct_demo_occs a b l by simp
qed

subsection \<open>A file that does not parse\<close>

lemma forEachM_append:
  "forEachM f (xs @ ys) st =
     (case forEachM f xs st of
        Returns st' \<Rightarrow> forEachM f ys st'
      | Throws e \<Rightarrow> Throws e
      | OutOfFuel \<Rightarrow> OutOfFuel)"
  by (induction xs arbitrary: st) (auto split: outcome.splits)

lemma forEachM_throws_at:
  assumes "forEachM f pre st = Returns st1" and "f x st1 = Throws e"
  shows "forEachM f (pre @ x # post) st = Throws e"
  using assms by (simp add: forEachM_append)

lemma forEachM_returns_each:
  assumes "forEachM f xs st = Returns st'" and "x \<in> set xs" and "P st"
    and "\<And>y a b. P a \<Longrightarrow> f y a = Returns b \<Longrightarrow> P b"
  shows "\<exists>a b. P a \<and> f x a = Returns b"
  using assms(1,2,3)
proof (induction xs arbitrary: st)
  case Nil
  then show ?case by simp
next
  case (Cons y ys)
  from Cons.prems(1) obtain st1 where s: "f y st = Returns st1" "forEachM f ys st1 = Returns st'"
    by (cases "f y st") simp_all
  show ?case
  proof (cases "x = y")
    case True
    then show ?thesis using s(1) Cons.prems(3) by blast
  next
    case False
    have "P st1" using Cons.prems(3) s(1) by (rule assms(4))
    then show ?thesis using Cons.IH [OF s(2)] Cons.prems(2) False by simp
  qed
qed

lemma exact_file_parse_error:
  "parse (fileMap (snd st) file) = Inl e \<Longrightarrow> exact_file parse gen hashCode fuel file st = Throws e"
  by (cases st) (simp add: exact_file_def)

lemma near_file_parse_error:
  "parse (fileMap (snd st) file) = Inl e \<Longrightarrow> near_file parse gen fuel file st = Throws e"
  by (cases st) (simp add: near_file_def)

lemma struct_file_parse_error:
  "parse (fileMap (snd st) file) = Inl e \<Longrightarrow> struct_file parse gen hashCode fuel file st = Throws e"
  by (cases st) (simp add: struct_file_def)

lemma exact_file_snd:
  "exact_file parse gen hashCode fuel file a = Returns b \<Longrightarrow> snd b = snd a"
  by (cases a; cases b) (auto dest: exact_file_world)

lemma near_file_snd:
  "near_file parse gen fuel file a = Returns b \<Longrightarrow> snd b = snd a"
  by (cases a; cases b) (auto dest: near_file_world)

lemma struct_file_snd:
  "struct_file parse gen hashCode fuel file a = Returns b \<Longrightarrow> snd b = snd a"
  by (cases a; cases b) (auto dest: struct_file_world)

lemma exact_loop_world:
  "forEachM (exact_file parse gen hashCode fuel) fs (tab, w) = Returns st \<Longrightarrow> snd st = w"
  using forEachM_world [of "exact_file parse gen hashCode fuel" fs tab w "fst st" "snd st"]
    exact_file_world [of parse gen hashCode fuel]
  by auto

lemma near_loop_world:
  "forEachM (near_file parse gen fuel) fs (fns, w) = Returns st \<Longrightarrow> snd st = w"
  using forEachM_world [of "near_file parse gen fuel" fs fns w "fst st" "snd st"]
    near_file_world [of parse gen fuel]
  by auto

lemma struct_loop_world:
  "forEachM (struct_file parse gen hashCode fuel) fs (tab, w) = Returns st \<Longrightarrow> snd st = w"
  using forEachM_world [of "struct_file parse gen hashCode fuel" fs tab w "fst st" "snd st"]
    struct_file_world [of parse gen hashCode fuel]
  by auto

text \<open>
  Claim C1, as the code has it. In all three finders the parse of a file stands
  outside every \<^verbatim>\<open>try\<close>: when the text of a file of the list does not parse, the
  call returns no result at all, and once the files before it have been processed
  it throws the error of the parser. Only the parse of a single extracted function
  in \<^verbatim>\<open>findStructuralDuplicates\<close> is guarded: that function is skipped and the table
  is left as it is.
\<close>

theorem parse_error_aborts_run:
  assumes "files w = pre @ bad # post" and "parse (fileMap w bad) = Inl e"
  shows "(\<forall>r. findExactDuplicates parse gen hashCode fuel w \<noteq> Returns r) \<and>
         (\<forall>r. findNearDuplicates parse gen compareTwoStrings fuel w threshold \<noteq> Returns r) \<and>
         (\<forall>r. findStructuralDuplicates parse gen hashCode fuel w \<noteq> Returns r) \<and>
         (\<forall>st. forEachM (exact_file parse gen hashCode fuel) pre ([], w) = Returns st \<longrightarrow>
               findExactDuplicates parse gen hashCode fuel w = Throws e) \<and>
         (\<forall>st. forEachM (near_file parse gen fuel) pre ([], w) = Returns st \<longrightarrow>
               findNearDuplicates parse gen compareTwoStrings fuel w threshold = Throws e) \<and>
         (\<forall>st. forEachM (struct_file parse gen hashCode fuel) pre ([], w) = Returns st \<longrightarrow>
               findStructuralDuplicates parse gen hashCode fuel w = Throws e) \<and>
         (\<forall>file fn tab e'. parse (Some fn) = Inl e' \<longrightarrow>
               struct_function parse gen hashCode fuel file fn tab = Returns tab)"
proof -
  have mem: "bad \<in> set (files w)" using assms(1) by simp
  have ex: "findExactDuplicates parse gen hashCode fuel w \<noteq> Returns r" for r
  proof
    assume "findExactDuplicates parse gen hashCode fuel w = Returns r"
    then obtain st where "forEachM (exact_file parse gen hashCode fuel) (files w) ([], w) = Returns st"
      by (auto simp: findExactDuplicates_def split: outcome.splits)
    then have "\<exists>a b. snd a = w \<and> exact_file parse gen hashCode fuel bad a = Returns b"
    proof (rule forEachM_returns_each [OF _ mem])
      show "snd ([], w) = w" by simp
    next
      fix y a b assume "snd a = w" and "exact_file parse gen hashCode fuel y a = Returns b"
      then show "snd b = w"
        using exact_file_snd [of parse gen hashCode fuel y a b] by simp
    qed
    then show False using assms(2) exact_file_parse_error [of parse _ bad e gen hashCode fuel] by auto
  qed
  have nr: "findNearDuplicates parse gen compareTwoStrings fuel w threshold \<noteq> Returns r" for r
  proof
    assume "findNearDuplicates parse gen compareTwoStrings fuel w threshold = Returns r"
    then obtain st where "forEachM (near_file parse gen fuel) (files w) ([], w) = Returns st"
      by (auto simp: findNearDuplicates_def split: outcome.splits)
    then have "\<exists>a b. snd a = w \<and> near_file parse gen fuel bad a = Returns b"
    proof (rule forEachM_returns_each [OF _ mem])
      show "snd ([], w) = w" by simp
    next
      fix y a b assume "snd a = w" and "near_file parse gen fuel y a = Returns b"
      then show "snd b = w"
        using near_file_snd [of parse gen fuel y a b] by simp
    qed
    then show False using assms(2) near_file_parse_error [of parse _ bad e gen fuel] by auto
  qed
  have sr: "findStructuralDuplicates parse gen hashCode fuel w \<noteq> Returns r" for r
  proof
    assume "findStructuralDuplicates parse gen hashCode fuel w = Returns r"
    then obtain st where "forEachM (struct_file parse gen hashCode fuel) (files w) ([], w) = Returns st"
      by (auto simp: findStructuralDuplicates_def split: outcome.splits)
    then have "\<exists>a b. snd a = w \<and> struct_file parse gen hashCode fuel bad a = Returns b"
    proof (rule forEachM_returns_each [OF _ mem])
      show "snd ([], w) = w" by simp
    next
      fix y a b assume "snd a = w" and "struct_file parse gen hashCode fuel y a = Returns b"
      then show "snd b = w"
        using struct_file_snd [of parse gen hashCode fuel y a b] by simp
    qed
    then show False using assms(2) struct_file_parse_error [of parse _ bad e gen hashCode fuel] by auto
  qed
  have et: "findExactDuplicates parse gen hashCode fuel w = Throws e"
    if "forEachM (exact_file parse gen hashCode fuel) pre ([], w) = Returns st" for st
  proof -
    have "snd st = w" using that by (rule exact_loop_world)
    then have "exact_file parse gen hashCode fuel bad st = Throws e"
      using assms(2) by (simp add: exact_file_parse_error)
    with that have "forEachM (exact_file parse gen hashCode fuel) (pre @ bad # post) ([], w) = Throws e"
      by (rule forEachM_throws_at)
    then show ?thesis by (simp add: findExactDuplicates_def assms(1))
  qed
  have nt: "findNearDuplicates parse gen compareTwoStrings fuel w threshold = Throws e"
    if "forEachM (near_file parse gen fuel) pre ([], w) = Returns st" for st
  proof -
    have "snd st = w" using that by (rule near_loop_world)
    then have "near_file parse gen fuel bad st = Throws e"
      using assms(2) by (simp add: near_file_parse_error)
    with that have "forEachM (near_file parse gen fuel) (pre @ bad # post) ([], w) = Throws e"
      by (rule forEachM_throws_at)
    then show ?thesis by (simp add: findNearDuplicates_def assms(1))
  qed
  have stt: "findStructuralDuplicates parse gen hashCode fuel w = Throws e"
    if "forEachM (struct_file parse gen hashCode fuel) pre ([], w) = Returns st" for st
  proof -
    have "snd st = w" using that by (rule struct_loop_world)
    then have "struct_file parse gen hashCode fuel bad st = Throws e"
      using assms(2) by (simp add: struct_file_parse_error)
    with that have "forEachM (struct_file parse gen hashCode fuel) (pre @ bad # post) ([], w) = Throws e"
      by (rule forEachM_throws_at)
    then show ?thesis by (simp add: findStructuralDuplicates_def assms(1))
  qed
  have fn: "struct_function parse gen hashCode fuel fl orig tab = Returns tab"
    if "parse (Some orig) = Inl e'" for fl orig tab e'
    using that by (simp add: struct_function_def canonical_code_def)
  show ?thesis using ex nr sr et nt stt fn by blast
qed

lemma bad_demo_eval:
  "findExactDuplicates stub_parse stub_generate stub_hashCode 12 w_bad = Throws ParseError \<and>
   findNearDuplicates stub_parse stub_generate stub_compareTwoStrings 12 w_bad (4 / 5) = Throws ParseError \<and>
   findStructuralDuplicates stub_parse stub_generate stub_hashCode 12 w_bad = Throws ParseError"
proof -
  have "(case findExactDuplicates stub_parse stub_generate stub_hashCode 12 w_bad of
           Throws e \<Rightarrow> e = ParseError | _ \<Rightarrow> False) \<and>
        (case findNearDuplicates stub_parse stub_generate stub_compareTwoStrings 12 w_bad (4 / 5) of
           Throws e \<Rightarrow> e = ParseError | _ \<Rightarrow> False) \<and>
        (case findStructuralDuplicates stub_parse stub_generate stub_hashCode 12 w_bad of
           Throws e \<Rightarrow> e = ParseError | _ \<Rightarrow> False)"
    by code_simp
  then show ?thesis by (auto split: outcome.splits)
qed

lemma good_demo_eval:
  "findExactDuplicates stub_parse stub_generate stub_hashCode 12 w_good =
     Returns ([\<lparr>group_function = src_f, group_files = [''a.js'', ''b.js'']\<rparr>], w_good)"
proof -
  have "(case findExactDuplicates stub_parse stub_generate stub_hashCode 12 w_good of
           Returns (gs, w') \<Rightarrow> gs = [\<lparr>group_function = src_f, group_files = [''a.js'', ''b.js'']\<rparr>]
         | _ \<Rightarrow> False)"
    by code_simp
  then obtain w' where r: "findExactDuplicates stub_parse stub_generate stub_hashCode 12 w_good =
      Returns ([\<lparr>group_function = src_f, group_files = [''a.js'', ''b.js'']\<rparr>], w')"
    by (auto split: outcome.splits)
  from findExactDuplicates_world [OF r] r show ?thesis by simp
qed

text \<open>
  The claim as the specification words it fails: of three files one does not
  parse; the other two hold the same function and alone give a group of exact
  duplicates, yet on the three files every finder throws the parse error and
  returns nothing.
\<close>

theorem parse_error_counterexample:
  "findExactDuplicates stub_parse stub_generate stub_hashCode 12 w_good =
     Returns ([\<lparr>group_function = src_f, group_files = [''a.js'', ''b.js'']\<rparr>], w_good) \<and>
   stub_parse (fileMap w_bad ''a.js'') \<noteq> Inl ParseError \<and>
   stub_parse (fileMap w_bad ''b.js'') \<noteq> Inl ParseError \<and>
   stub_parse (fileMap w_bad ''bad.js'') = Inl ParseError \<and>
   findExactDuplicates stub_parse stub_generate stub_hashCode 12 w_bad = Throws ParseError \<and>
   findNearDuplicates stub_parse stub_generate stub_compareTwoStrings 12 w_bad (4 / 5) = Throws ParseError \<and>
   findStructuralDuplicates stub_parse stub_generate stub_hashCode 12 w_bad = Throws ParseError"
proof -
  have "(case stub_parse (fileMap w_bad ''a.js'') of Inl e \<Rightarrow> False | Inr p \<Rightarrow> True) \<and>
        (case stub_parse (fileMap w_bad ''b.js'') of Inl e \<Rightarrow> False | Inr p \<Rightarrow> True) \<and>
        (case stub_parse (fileMap w_bad ''bad.js'') of Inl e \<Rightarrow> e = ParseError | Inr p \<Rightarrow> False)"
    by code_simp
  then have "stub_parse (fileMap w_bad ''a.js'') \<noteq> Inl ParseError \<and>
        stub_parse (fileMap w_bad ''b.js'') \<noteq> Inl ParseError \<and>
        stub_parse (fileMap w_bad ''bad.js'') = Inl ParseError"
    by (auto split: sum.splits)
  then show ?thesis using good_demo_eval bad_demo_eval by simp
qed

theorem parse_error_aborts_run_witness:
  "files w_bad = [''a.js'', ''b.js''] @ ''bad.js'' # [] \<and>
   stub_parse (fileMap w_bad ''bad.js'') = Inl ParseError \<and>
   findExactDuplicates stub_parse stub_generate stub_hashCode 12 w_bad = Throws ParseError \<and>
   findNearDuplicates stub_parse stub_generate stub_compareTwoStrings 12 w_bad (4 / 5) = Throws ParseError \<and>
   findStructuralDuplicates stub_parse stub_generate stub_hashCode 12 w_bad = Throws ParseError \<and>
   stub_parse (Some ''function ('') = Inl ParseError \<and>
   struct_function stub_parse stub_generate stub_hashCode 12 ''a.js'' ''function ('' [] = Returns []"
proof -
  have f: "files w_bad = [''a.js'', ''b.js''] @ ''bad.js'' # []"
    by (simp add: w_bad_def)
  have "(case stub_parse (fileMap w_bad ''bad.js'') of Inl e \<Rightarrow> e = ParseError | Inr p \<Rightarrow> False) \<and>
        (case stub_parse (Some ''function ('') of Inl e \<Rightarrow> e = ParseError | Inr p \<Rightarrow> False)"
    by code_simp
  then have p: "stub_parse (fileMap w_bad ''bad.js'') = Inl ParseError"
    and q: "stub_parse (Some ''function ('') = Inl ParseError"
    by (auto split: sum.splits)
  note th = parse_error_aborts_run [where w = w_bad and pre = "[''a.js'', ''b.js'']"
      and bad = "''bad.js''" and post = "[]" and parse = stub_parse and e = ParseError
      and gen = stub_generate and hashCode = stub_hashCode and fuel = 12
      and compareTwoStrings = stub_compareTwoStrings and threshold = "4 / 5", OF f p]
  have l1: "(case forEachM (exact_file stub_parse stub_generate stub_hashCode 12) [''a.js'', ''b.js''] ([], w_bad) of
               Returns st \<Rightarrow> True | _ \<Rightarrow> False) \<and>
            (case forEachM (near_file stub_parse stub_generate 12) [''a.js'', ''b.js''] ([], w_bad) of
               Returns st \<Rightarrow> True | _ \<Rightarrow> False) \<and>
            (case forEachM (struct_file stub_parse stub_generate stub_hashCode 12) [''a.js'', ''b.js''] ([], w_bad) of
               Returns st \<Rightarrow> True | _ \<Rightarrow> False)"
    by code_simp
  then obtain s1 s2 s3 where
    "forEachM (exact_file stub_parse stub_generate stub_hashCode 12) [''a.js'', ''b.js''] ([], w_bad) = Returns s1"
    "forEachM (near_file stub_parse stub_generate 12) [''a.js'', ''b.js''] ([], w_bad) = Returns s2"
    "forEachM (struct_file stub_parse stub_generate stub_hashCode 12) [''a.js'', ''b.js''] ([], w_bad) = Returns s3"
    by (auto split: outcome.splits)
  with th have
    "findExactDuplicates stub_parse stub_generate stub_hashCode 12 w_bad = Throws ParseError"
    "findNearDuplicates stub_parse stub_generate stub_compareTwoStrings 12 w_bad (4 / 5) = Throws ParseError"
    "findStructuralDuplicates stub_parse stub_generate stub_hashCode 12 w_bad = Throws ParseError"
    by blast+
  moreover have "struct_function stub_parse stub_generate stub_hashCode 12 ''a.js'' ''function ('' [] = Returns []"
    using th q by blast
  ultimately show ?thesis using f p q by simp
qed

end
